theory Spec2Isabelle
  imports Main "HOL-Library.Multiset" "HOL-Library.Log_Nat"
begin

section \<open>Data model\<close>

text \<open>
  Numbers of the program are JavaScript numbers that hold integers (reply counts, unread
  counts, versions, millisecond time stamps); they are modelled as \<open>int\<close>, which is exact
  for magnitudes up to \<open>2^53\<close>. A field read from a decoded record may also be
  \<open>null\<close> or \<open>undefined\<close>; the two differ in arithmetic (\<open>null\<close> converts to
  \<open>0\<close>, \<open>undefined\<close> to \<open>NaN\<close>), so both are kept. A number that may be
  \<open>NaN\<close> is an \<open>int option\<close> with \<open>None\<close> for \<open>NaN\<close>.
\<close>

datatype jsnum = Undefined | Null | Num int

text \<open>\<open>interface CommentEntry\<close> (types/comment). A string field that may be missing
  is a \<open>string option\<close>, \<open>None\<close> standing for \<open>undefined\<close>; such a field is truthy
  when it is present and not the empty string. The optional \<open>version\<close> is an
  \<open>int option\<close>.\<close>

record CommentEntry =
  topicId :: string
  topicTitle :: "string option"
  commentNumber :: string
  postedAt :: "string option"
  commentBody :: "string option"
  resCount :: jsnum
  unreadCount :: jsnum
  createdAt :: string
  updatedAt :: "string option"
  version :: "int option"

section \<open>Configuration constants (constants/app-config)\<close>

definition ACTIVE_DELAY_MS :: int where "ACTIVE_DELAY_MS = 3000"
definition SKIP_AFTER_DAYS :: int where "SKIP_AFTER_DAYS = 31"
definition COMMENTS_PER_PAGE :: int where "COMMENTS_PER_PAGE = 500"
definition OPTIMISTIC_LOCK_MAX_RETRIES :: nat where "OPTIMISTIC_LOCK_MAX_RETRIES = 3"
definition MAX_ENTRIES :: nat where "MAX_ENTRIES = 1000"
definition MS_PER_DAY :: int where "MS_PER_DAY = 1000 * 60 * 60 * 24"

section \<open>Page number of a comment (utils/pagination)\<close>

text \<open>
  A JavaScript string is a sequence of UTF-16 code units, here a list of integers (from
  0 to 65535). The strings of the other sections hold identifiers and dates in characters
  below 256; \<open>codeUnits\<close> gives their code units.
\<close>

definition codeUnits :: "string \<Rightarrow> int list" where
  "codeUnits s = map of_char s"

text \<open>
  The white space that \<open>parseInt\<close> trims (\<open>WhiteSpace\<close> and \<open>LineTerminator\<close>): TAB,
  LF, VT, FF, CR, SP, NBSP, U+1680, U+2000 to U+200A, U+2028, U+2029, U+202F, U+205F,
  U+3000 and U+FEFF. The digits of radix 10 are the code units 48 to 57.
\<close>

definition isStrWhiteSpace :: "int \<Rightarrow> bool" where
  "isStrWhiteSpace u =
     (u \<in> {9, 10, 11, 12, 13, 32, 160, 5760, 8232, 8233, 8239, 8287, 12288, 65279} \<or>
      (8192 \<le> u \<and> u \<le> 8202))"

definition isDecimalDigit :: "int \<Rightarrow> bool" where
  "isDecimalDigit u = (48 \<le> u \<and> u \<le> 57)"

definition digitsVal :: "int list \<Rightarrow> int" where
  "digitsVal ds = foldl (\<lambda>acc u. acc * 10 + (u - 48)) 0 ds"

text \<open>
  \<open>parseInt(s, 10)\<close> up to its last step: leading white space is dropped, one sign is
  read, then the longest prefix of decimal digits; no digit gives \<open>NaN\<close> (\<open>None\<close>),
  otherwise the result is the signed mathematical integer of the digits, which
  \<open>parseInt\<close> then rounds to a double.
\<close>

definition parseInt10 :: "int list \<Rightarrow> int option" where
  "parseInt10 s =
     (let s1 = dropWhile isStrWhiteSpace s;
          neg = (case s1 of [] \<Rightarrow> False | u # _ \<Rightarrow> u = 45);
          s2 = (case s1 of [] \<Rightarrow> []
                | u # r \<Rightarrow> if u = 45 \<or> u = 43 then r else s1);
          z = takeWhile isDecimalDigit s2
      in if z = [] then None
         else Some ((if neg then - 1 else 1) * digitsVal z))"

text \<open>
  Numbers are IEEE 754 doubles: 53 bits of significand, rounding to nearest, ties to the
  even significand. \<open>rne num den\<close> is the integer nearest to \<open>num / den\<close>, ties to
  even. For \<open>p > 0\<close> and \<open>d > 0\<close>, \<open>binExp p d\<close> is the \<open>s\<close> with
  \<open>2^52 \<le> p * 2^s / d < 2^53\<close>, so that the double nearest to \<open>p / d\<close> is
  \<open>rne (p * 2^s) d / 2^s\<close>; \<open>floorDouble p d\<close> is \<open>Math.floor\<close> of that double.
  With \<open>d = 1\<close> this is the double nearest to the integer \<open>p\<close>, itself an integer.
  All values here are between \<open>1 / 500\<close> and \<open>10^18\<close>, far from the subnormal and the
  infinite doubles.
\<close>

definition rne :: "int \<Rightarrow> int \<Rightarrow> int" where
  "rne num den =
     (let m0 = num div den; r = num mod den
      in if den < 2 * r \<or> (2 * r = den \<and> odd m0) then m0 + 1 else m0)"

definition binExp :: "int \<Rightarrow> int \<Rightarrow> int" where
  "binExp p d =
     (let s0 = 53 + bitlen d - bitlen p
      in if 2 ^ 53 * d * 2 ^ nat (- s0) \<le> p * 2 ^ nat s0 then s0 - 1 else s0)"

definition floorDouble :: "int \<Rightarrow> int \<Rightarrow> int" where
  "floorDouble p d =
     (if p \<le> 0 then 0
      else
        (let s = binExp p d;
             m = rne (p * 2 ^ nat s) (d * 2 ^ nat (- s))
         in if 0 \<le> s then m div 2 ^ nat s else m * 2 ^ nat (- s)))"

definition toDouble :: "int \<Rightarrow> int" where
  "toDouble p = floorDouble p 1"

text \<open>\<open>String(n)\<close> for an integer below \<open>2^53\<close>: its decimal digits.\<close>

definition digitChar :: "int \<Rightarrow> char" where
  "digitChar d = char_of (48 + d)"

function showDigits :: "int \<Rightarrow> string" where
  "showDigits n =
     (if n < 10 then [digitChar n] else showDigits (n div 10) @ [digitChar (n mod 10)])"
  by pat_completeness auto

termination
  by (relation "measure nat") auto

definition showInt :: "int \<Rightarrow> string" where
  "showInt i = (if i < 0 then CHR ''-'' # showDigits (- i) else showDigits i)"

text \<open>
  \<open>calculatePageNumber\<close>. The test \<open>n <= 0\<close> on the double is the test on the integer
  parsed, since rounding keeps the sign. For a parsed integer below \<open>10^18\<close> the
  subtraction, the division and the addition are rounded as the doubles are, and the
  result is below \<open>2^53\<close>, where \<open>String\<close> prints the digits. From \<open>10^18\<close> on the
  result of the source depends on how \<open>String\<close> prints larger doubles (exponent notation
  from \<open>10^21\<close>, \<open>Infinity\<close>) and, past 20 digits, on the engine's \<open>parseInt\<close>; the
  model gives no page there (\<open>Unmodelled\<close>).
\<close>

datatype pageNumber = PageNo string | Unmodelled

definition calculatePageNumber :: "int list \<Rightarrow> pageNumber" where
  "calculatePageNumber cn =
     (case parseInt10 cn of
        None \<Rightarrow> PageNo ''1''
      | Some z \<Rightarrow>
          if z \<le> 0 then PageNo ''1''
          else if 10 ^ 18 \<le> z then Unmodelled
          else
            (let n = toDouble z
             in PageNo (showInt
                  (toDouble (floorDouble (toDouble (n - 1)) COMMENTS_PER_PAGE + 1)))))"

text \<open>The characters of the identifiers (utils/validation).\<close>

definition isDigit :: "char \<Rightarrow> bool" where
  "isDigit c = (48 \<le> (of_char c :: int) \<and> (of_char c :: int) \<le> 57)"

section \<open>Persistence with optimistic lock (services/storage-service)\<close>

text \<open>
  The browser storage holds the comment records under their storage keys. A storage call
  is awaited and may reject; which of the coming calls reject is given by \<open>faults\<close>, one
  flag per call in order (\<open>True\<close>: the call throws and changes nothing), no flag left
  meaning that the call succeeds.
\<close>

datatype exn = StorageError

record storage =
  items :: "string \<rightharpoonup> CommentEntry"
  faults :: "bool list"

definition nextFault :: "'a storage_scheme \<Rightarrow> bool \<times> 'a storage_scheme" where
  "nextFault w = (case faults w of [] \<Rightarrow> (False, w) | f # fs \<Rightarrow> (f, w\<lparr>faults := fs\<rparr>))"

definition storage_getItem ::
  "string \<Rightarrow> 'a storage_scheme \<Rightarrow> (exn + CommentEntry option) \<times> 'a storage_scheme" where
  "storage_getItem k w =
     (case nextFault w of
        (True, w') \<Rightarrow> (Inl StorageError, w')
      | (False, w') \<Rightarrow> (Inr (items w' k), w'))"

definition storage_setItem ::
  "string \<Rightarrow> CommentEntry \<Rightarrow> 'a storage_scheme \<Rightarrow> (exn + unit) \<times> 'a storage_scheme" where
  "storage_setItem k v w =
     (case nextFault w of
        (True, w') \<Rightarrow> (Inl StorageError, w')
      | (False, w') \<Rightarrow> (Inr (), w'\<lparr>items := (items w')(k \<mapsto> v)\<rparr>))"

definition storage_removeItem ::
  "string \<Rightarrow> 'a storage_scheme \<Rightarrow> (exn + unit) \<times> 'a storage_scheme" where
  "storage_removeItem k w =
     (case nextFault w of
        (True, w') \<Rightarrow> (Inl StorageError, w')
      | (False, w') \<Rightarrow> (Inr (), w'\<lparr>items := (items w')(k := None)\<rparr>))"

definition getCommentKey :: "string \<Rightarrow> string \<Rightarrow> string" where
  "getCommentKey t c = t @ '':'' @ c"

definition getStorageKey :: "string \<Rightarrow> string \<Rightarrow> string" where
  "getStorageKey t c = ''local:'' @ ''comment:'' @ t @ '':'' @ c"

text \<open>
  \<open>new Date(s).getTime()\<close> is a parameter \<open>getTime\<close> of the functions that compare
  time stamps: the milliseconds of a date string, \<open>None\<close> for \<open>NaN\<close> (an invalid date).
  A comparison with \<open>NaN\<close> is false.
\<close>

definition jsGreater :: "int option \<Rightarrow> int option \<Rightarrow> bool" where
  "jsGreater a b = (case (a, b) of (Some x, Some y) \<Rightarrow> y < x | _ \<Rightarrow> False)"

text \<open>The conflict test of the lock: a record is stored, both time stamps are truthy,
  and the stored one is strictly later.\<close>

definition existingIsNewer ::
  "(string \<Rightarrow> int option) \<Rightarrow> CommentEntry option \<Rightarrow> CommentEntry \<Rightarrow> bool" where
  "existingIsNewer getTime current entry =
     (case current of
        None \<Rightarrow> False
      | Some cur \<Rightarrow>
          (case (updatedAt cur, updatedAt entry) of
             (Some cu, Some eu) \<Rightarrow>
               cu \<noteq> [] \<and> eu \<noteq> [] \<and> jsGreater (getTime cu) (getTime eu)
           | _ \<Rightarrow> False))"

definition currentVersion :: "CommentEntry option \<Rightarrow> int" where
  "currentVersion current =
     (case current of
        None \<Rightarrow> 0
      | Some cur \<Rightarrow> (case version cur of None \<Rightarrow> 0 | Some v \<Rightarrow> v))"

text \<open>
  The retry loop of \<open>saveCommentWithOptimisticLock\<close>, from attempt number \<open>attempt\<close>.
  \<open>clock i\<close> is what \<open>new Date().toISOString()\<close> returns in attempt \<open>i\<close>. The
  back-off sleep between attempts only delays and is left out.
\<close>

function saveAttempts ::
  "(string \<Rightarrow> int option) \<Rightarrow> (nat \<Rightarrow> string) \<Rightarrow> CommentEntry \<Rightarrow> nat \<Rightarrow> nat \<Rightarrow>
   'a storage_scheme \<Rightarrow> bool \<times> 'a storage_scheme" where
  "saveAttempts getTime clock entry maxRetries attempt w =
     (if attempt < maxRetries then
        (case storage_getItem (getStorageKey (topicId entry) (commentNumber entry)) w of
           (Inl e, w1) \<Rightarrow> saveAttempts getTime clock entry maxRetries (attempt + 1) w1
         | (Inr current, w1) \<Rightarrow>
             if existingIsNewer getTime current entry then (False, w1)
             else
               (case storage_setItem (getStorageKey (topicId entry) (commentNumber entry))
                       (entry\<lparr>version := Some (currentVersion current + 1),
                              updatedAt := Some (clock attempt)\<rparr>) w1 of
                  (Inl e, w2) \<Rightarrow> saveAttempts getTime clock entry maxRetries (attempt + 1) w2
                | (Inr u, w2) \<Rightarrow> (True, w2)))
      else (False, w))"
  by pat_completeness auto
termination
  by (relation "measure (\<lambda>(getTime, clock, entry, maxRetries, attempt, w). maxRetries - attempt)")
     auto

definition saveCommentWithOptimisticLock ::
  "(string \<Rightarrow> int option) \<Rightarrow> (nat \<Rightarrow> string) \<Rightarrow> CommentEntry \<Rightarrow> nat \<Rightarrow>
   'a storage_scheme \<Rightarrow> bool \<times> 'a storage_scheme" where
  "saveCommentWithOptimisticLock getTime clock entry maxRetries w =
     saveAttempts getTime clock entry maxRetries 0 w"

text \<open>The counters of the record stored for an entry's key, if one is stored.\<close>

definition persistedCounts :: "'a storage_scheme \<Rightarrow> CommentEntry \<Rightarrow> (jsnum \<times> jsnum) option" where
  "persistedCounts w entry =
     map_option (\<lambda>c. (unreadCount c, resCount c))
       (items w (getStorageKey (topicId entry) (commentNumber entry)))"

section \<open>The crawl engine (services/crawler-service)\<close>

text \<open>
  The crawler runs against the rest of the program and the browser, whose state is a type
  parameter \<open>'s\<close>. What it calls there is collected in a record: the clock, the read of
  the stored \<open>crawler:enabled\<close> flag (awaited, may reject), the page fetch with the
  extraction of the reply count (\<open>null\<close> on every failure), and the timer. An awaited call
  returns \<open>Inl\<close> when its promise rejects.
\<close>

record 's env =
  Date_getTime :: "string \<Rightarrow> int option"
  Date_now :: "'s \<Rightarrow> int"
  Date_toISOString :: "'s \<Rightarrow> string"
  getCrawlerEnabled :: "'s \<Rightarrow> (exn + bool option) \<times> 's"
  httpResCount :: "string \<Rightarrow> string \<Rightarrow> string \<Rightarrow> 's \<Rightarrow> int option \<times> 's"
  sleep :: "int \<Rightarrow> 's \<Rightarrow> 's"

text \<open>\<open>validateTopicId\<close>, \<open>validateCommentNumber\<close> (utils/validation): one to ten
  decimal digits.\<close>

definition validateTopicId :: "string \<Rightarrow> bool" where
  "validateTopicId t = (t \<noteq> [] \<and> length t \<le> 10 \<and> list_all isDigit t)"

definition validateCommentNumber :: "string \<Rightarrow> bool" where
  "validateCommentNumber c = (c \<noteq> [] \<and> length c \<le> 10 \<and> list_all isDigit c)"

text \<open>
  \<open>fetchResCountForComment\<close>: invalid identifiers give \<open>null\<close> without a request;
  otherwise the page of the comment is requested and searched, which is the environment's
  \<open>httpResCount\<close> of the topic, the page number and the comment number. A valid
  comment number has at most ten digits, so its page number is always modelled (lemma
  \<open>validated_page\<close>) and the case \<open>Unmodelled\<close> does not occur.
\<close>

definition fetchResCountForComment ::
  "'s env \<Rightarrow> string \<Rightarrow> string \<Rightarrow> 's \<Rightarrow> int option \<times> 's" where
  "fetchResCountForComment env t c s =
     (if \<not> validateTopicId t \<or> \<not> validateCommentNumber c then (None, s)
      else
        (case calculatePageNumber (codeUnits c) of
           PageNo pageNumber \<Rightarrow> httpResCount env t pageNumber c s
         | Unmodelled \<Rightarrow> (None, s)))"

text \<open>
  The unread count of a reconciliation (the two statements that compute \<open>unreadCount\<close>):
  \<open>previousResCount == null ? 0 : currentResCount - previousResCount + (previousUnread ?? 0)\<close>,
  then \<open>Math.max(0, _)\<close>.
\<close>

definition computeUnread :: "jsnum \<Rightarrow> jsnum \<Rightarrow> int \<Rightarrow> int" where
  "computeUnread previousResCount previousUnread currentResCount =
     max 0 (case previousResCount of
              Num p \<Rightarrow> currentResCount - p + (case previousUnread of Num u \<Rightarrow> u | _ \<Rightarrow> 0)
            | _ \<Rightarrow> 0)"

text \<open>\<open>n - x\<close> for a number \<open>n\<close>: \<open>null\<close> converts to 0, \<open>undefined\<close> gives \<open>NaN\<close>.\<close>

definition jsMinus :: "int \<Rightarrow> jsnum \<Rightarrow> int option" where
  "jsMinus n x = (case x of Num u \<Rightarrow> Some (n - u) | Null \<Rightarrow> Some n | Undefined \<Rightarrow> None)"

text \<open>
  The age test: \<open>postedAt\<close> is truthy and \<open>(now - posted) / 86400000 >= 31\<close>. On
  integers below \<open>2^53\<close> the floating-point quotient reaches 31 exactly when the
  difference reaches 31 days; an unparseable \<open>postedAt\<close> gives \<open>NaN\<close> and no skip.
\<close>

definition tooOld :: "'s env \<Rightarrow> CommentEntry \<Rightarrow> 's \<Rightarrow> bool" where
  "tooOld env previousComment s =
     (case postedAt previousComment of
        None \<Rightarrow> False
      | Some p \<Rightarrow>
          p \<noteq> [] \<and>
          (case Date_getTime env p of
             None \<Rightarrow> False
           | Some postedDate \<Rightarrow> SKIP_AFTER_DAYS * MS_PER_DAY \<le> Date_now env s - postedDate))"

text \<open>
  The body of the inner \<open>try\<close> for one entry, with its \<open>catch\<close>: the result is the
  number added to \<open>updatedCount\<close> (0 or 1) and the state. A rejecting \<open>saveComment\<close>
  or \<open>adjustUnread\<close> is caught and ends the body.
\<close>

definition reconcileEntry ::
  "'s env \<Rightarrow> (string \<Rightarrow> string \<Rightarrow> 's \<Rightarrow> CommentEntry option) \<Rightarrow>
   (CommentEntry \<Rightarrow> 's \<Rightarrow> (exn + CommentEntry option) \<times> 's) \<Rightarrow>
   (int option \<Rightarrow> 's \<Rightarrow> (exn + unit) \<times> 's) \<Rightarrow> CommentEntry \<Rightarrow> 's \<Rightarrow> nat \<times> 's" where
  "reconcileEntry env getComment saveComment adjustUnread comment s =
     (let previousComment =
            (case getComment (topicId comment) (commentNumber comment) s of
               None \<Rightarrow> comment | Some p \<Rightarrow> p);
          previousResCount = resCount previousComment;
          previousUnread = unreadCount previousComment
      in if tooOld env previousComment s then (0, s)
         else
           (case fetchResCountForComment env (topicId comment) (commentNumber comment) s of
              (None, s1) \<Rightarrow> (0, s1)
            | (Some currentResCount, s1) \<Rightarrow>
                (let unread = computeUnread previousResCount previousUnread currentResCount;
                     delta = jsMinus unread previousUnread;
                     resChanged = (Num currentResCount \<noteq> previousResCount)
                 in if delta \<noteq> Some 0 \<or> resChanged then
                      (case saveComment
                              (previousComment\<lparr>resCount := Num currentResCount,
                                 unreadCount := Num unread,
                                 updatedAt := Some (Date_toISOString env s1)\<rparr>) s1 of
                         (Inl e, s2) \<Rightarrow> (0, s2)
                       | (Inr None, s2) \<Rightarrow> (0, s2)
                       | (Inr (Some saved), s2) \<Rightarrow>
                           if delta \<noteq> Some 0 then
                             (case adjustUnread delta s2 of
                                (Inl e, s3) \<Rightarrow> (0, s3)
                              | (Inr u, s3) \<Rightarrow> (1, s3))
                           else (1, s2))
                    else (0, s1))))"

text \<open>The flag read before an entry: \<open>False\<close> breaks the loop; a failing read is
  logged and the entry is processed. A missing flag counts as enabled.\<close>

definition enabledNow :: "'s env \<Rightarrow> 's \<Rightarrow> bool \<times> 's" where
  "enabledNow env s =
     (case getCrawlerEnabled env s of
        (Inl e, s1) \<Rightarrow> (True, s1)
      | (Inr None, s1) \<Rightarrow> (True, s1)
      | (Inr (Some b), s1) \<Rightarrow> (b, s1))"

text \<open>The \<open>finally\<close> block of an entry: the delay, then the flag again.\<close>

definition afterEntry :: "'s env \<Rightarrow> 's \<Rightarrow> bool \<times> 's" where
  "afterEntry env s = enabledNow env (sleep env ACTIVE_DELAY_MS s)"

fun crawlLoop ::
  "'s env \<Rightarrow> (string \<Rightarrow> string \<Rightarrow> 's \<Rightarrow> CommentEntry option) \<Rightarrow>
   (CommentEntry \<Rightarrow> 's \<Rightarrow> (exn + CommentEntry option) \<times> 's) \<Rightarrow>
   (int option \<Rightarrow> 's \<Rightarrow> (exn + unit) \<times> 's) \<Rightarrow> CommentEntry list \<Rightarrow> nat \<Rightarrow> 's \<Rightarrow> nat \<times> 's" where
  "crawlLoop env getComment saveComment adjustUnread [] updatedCount s = (updatedCount, s)"
| "crawlLoop env getComment saveComment adjustUnread (comment # rest) updatedCount s =
     (case enabledNow env s of
        (False, s1) \<Rightarrow> (updatedCount, s1)
      | (True, s1) \<Rightarrow>
          (case reconcileEntry env getComment saveComment adjustUnread comment s1 of
             (k, s2) \<Rightarrow>
               (case afterEntry env s2 of
                  (False, s3) \<Rightarrow> (updatedCount + k, s3)
                | (True, s3) \<Rightarrow>
                    crawlLoop env getComment saveComment adjustUnread rest
                      (updatedCount + k) s3)))"

text \<open>
  The module variable \<open>isCrawling\<close> next to the rest of the state. The calls that a
  cycle awaits run on this whole state: while a call is awaited other handlers of the
  page run, and they may invoke \<open>crawlCommentsOnce\<close> again and see the variable.
\<close>

record 's crawler =
  isCrawling :: bool
  world :: 's

text \<open>
  \<open>crawlCommentsOnce\<close>. The test of \<open>isCrawling\<close> and the assignment \<open>true\<close> have no
  awaited call between them; the \<open>finally\<close> block assigns \<open>false\<close> on every way out
  of the \<open>try\<close> block. The rejections of the awaited calls are caught inside the loop.
\<close>

definition crawlCommentsOnce ::
  "'s crawler env \<Rightarrow> CommentEntry list \<Rightarrow>
   (string \<Rightarrow> string \<Rightarrow> 's crawler \<Rightarrow> CommentEntry option) \<Rightarrow>
   (CommentEntry \<Rightarrow> 's crawler \<Rightarrow> (exn + CommentEntry option) \<times> 's crawler) \<Rightarrow>
   (int option \<Rightarrow> 's crawler \<Rightarrow> (exn + unit) \<times> 's crawler) \<Rightarrow>
   's crawler \<Rightarrow> nat \<times> 's crawler" where
  "crawlCommentsOnce env commentList getComment saveComment adjustUnread c =
     (if isCrawling c then (0, c)
      else
        (let c1 = c\<lparr>isCrawling := True\<rparr>
         in if commentList = [] then (0, c1\<lparr>isCrawling := False\<rparr>)
            else
              (case crawlLoop env getComment saveComment adjustUnread commentList 0 c1 of
                 (updatedCount, c2) \<Rightarrow> (updatedCount, c2\<lparr>isCrawling := False\<rparr>))))"

text \<open>
  The functions of the page (storage, cache, unread total, the remote site) do not know
  \<open>isCrawling\<close>, which is private to the crawler module: they act on the \<open>world\<close>
  part of the state.
\<close>

definition onWorld :: "('s \<Rightarrow> 'r \<times> 's) \<Rightarrow> 's crawler \<Rightarrow> 'r \<times> 's crawler" where
  "onWorld f c = (case f (world c) of (r, s) \<Rightarrow> (r, c\<lparr>world := s\<rparr>))"

definition liftEnv :: "'s env \<Rightarrow> 's crawler env" where
  "liftEnv env =
     \<lparr>Date_getTime = Date_getTime env,
      Date_now = (\<lambda>c. Date_now env (world c)),
      Date_toISOString = (\<lambda>c. Date_toISOString env (world c)),
      getCrawlerEnabled = onWorld (getCrawlerEnabled env),
      httpResCount = (\<lambda>t p cn. onWorld (httpResCount env t p cn)),
      sleep = (\<lambda>ms c. c\<lparr>world := sleep env ms (world c)\<rparr>)\<rparr>"

definition liftGet ::
  "(string \<Rightarrow> string \<Rightarrow> 's \<Rightarrow> CommentEntry option) \<Rightarrow>
   string \<Rightarrow> string \<Rightarrow> 's crawler \<Rightarrow> CommentEntry option" where
  "liftGet getComment t cn c = getComment t cn (world c)"

definition liftCall :: "('a \<Rightarrow> 's \<Rightarrow> 'r \<times> 's) \<Rightarrow> 'a \<Rightarrow> 's crawler \<Rightarrow> 'r \<times> 's crawler" where
  "liftCall f x = onWorld (f x)"

text \<open>
  An invocation \<open>other\<close> of the crawl cycle that arrives while a call of a running cycle
  is awaited: it runs before the awaited call takes effect, and once more after it. Its
  own result goes to its own caller.
\<close>

definition during ::
  "('s crawler \<Rightarrow> nat \<times> 's crawler) \<Rightarrow> ('s crawler \<Rightarrow> 'r \<times> 's crawler) \<Rightarrow>
   's crawler \<Rightarrow> 'r \<times> 's crawler" where
  "during other f c = (case f (snd (other c)) of (r, c1) \<Rightarrow> (r, snd (other c1)))"

definition duringEnv ::
  "('s crawler \<Rightarrow> nat \<times> 's crawler) \<Rightarrow> 's crawler env \<Rightarrow> 's crawler env" where
  "duringEnv other env =
     \<lparr>Date_getTime = Date_getTime env,
      Date_now = Date_now env,
      Date_toISOString = Date_toISOString env,
      getCrawlerEnabled = during other (getCrawlerEnabled env),
      httpResCount = (\<lambda>t p cn. during other (httpResCount env t p cn)),
      sleep = (\<lambda>ms c. snd (other (sleep env ms (snd (other c)))))\<rparr>"

text \<open>
  The crawl cycle as the background page starts it, on the functions of the page; and
  the same cycle when the invocation \<open>other\<close> arrives during each of its awaited calls
  (the flag reads, the fetch, \<open>saveComment\<close>, \<open>adjustUnread\<close> and the sleep).
\<close>

definition crawlPage ::
  "'s env \<Rightarrow> CommentEntry list \<Rightarrow> (string \<Rightarrow> string \<Rightarrow> 's \<Rightarrow> CommentEntry option) \<Rightarrow>
   (CommentEntry \<Rightarrow> 's \<Rightarrow> (exn + CommentEntry option) \<times> 's) \<Rightarrow>
   (int option \<Rightarrow> 's \<Rightarrow> (exn + unit) \<times> 's) \<Rightarrow> 's crawler \<Rightarrow> nat \<times> 's crawler" where
  "crawlPage env commentList getComment saveComment adjustUnread =
     crawlCommentsOnce (liftEnv env) commentList (liftGet getComment)
       (liftCall saveComment) (liftCall adjustUnread)"

definition crawlWhileInvoked ::
  "('s crawler \<Rightarrow> nat \<times> 's crawler) \<Rightarrow>
   's env \<Rightarrow> CommentEntry list \<Rightarrow> (string \<Rightarrow> string \<Rightarrow> 's \<Rightarrow> CommentEntry option) \<Rightarrow>
   (CommentEntry \<Rightarrow> 's \<Rightarrow> (exn + CommentEntry option) \<times> 's) \<Rightarrow>
   (int option \<Rightarrow> 's \<Rightarrow> (exn + unit) \<times> 's) \<Rightarrow> 's crawler \<Rightarrow> nat \<times> 's crawler" where
  "crawlWhileInvoked other env commentList getComment saveComment adjustUnread =
     crawlCommentsOnce (duringEnv other (liftEnv env)) commentList (liftGet getComment)
       (\<lambda>e. during other (liftCall saveComment e)) (\<lambda>d. during other (liftCall adjustUnread d))"

subsection \<open>Recording the calls\<close>

text \<open>
  To speak about which calls a run makes, the state is paired with a list of the calls
  made so far, and every callable is wrapped so that it appends its call. The wrapped
  callables behave as the given ones on the state itself.
\<close>

datatype event =
    EvEnabled
  | EvFetch string string string
  | EvSave CommentEntry bool
  | EvAdjust "int option"
  | EvSleep int

definition logEnv :: "'s env \<Rightarrow> ('s \<times> event list) env" where
  "logEnv env =
     \<lparr>Date_getTime = Date_getTime env,
      Date_now = (\<lambda>(s, tr). Date_now env s),
      Date_toISOString = (\<lambda>(s, tr). Date_toISOString env s),
      getCrawlerEnabled = (\<lambda>(s, tr).
         case getCrawlerEnabled env s of (r, s') \<Rightarrow> (r, (s', tr @ [EvEnabled]))),
      httpResCount = (\<lambda>t p c (s, tr).
         case httpResCount env t p c s of (r, s') \<Rightarrow> (r, (s', tr @ [EvFetch t p c]))),
      sleep = (\<lambda>ms (s, tr). (sleep env ms s, tr @ [EvSleep ms]))\<rparr>"

definition logGet ::
  "(string \<Rightarrow> string \<Rightarrow> 's \<Rightarrow> CommentEntry option) \<Rightarrow>
   string \<Rightarrow> string \<Rightarrow> 's \<times> event list \<Rightarrow> CommentEntry option" where
  "logGet getComment t c = (\<lambda>(s, tr). getComment t c s)"

definition savedOk :: "exn + CommentEntry option \<Rightarrow> bool" where
  "savedOk r = (case r of Inr (Some saved) \<Rightarrow> True | _ \<Rightarrow> False)"

definition logSave ::
  "(CommentEntry \<Rightarrow> 's \<Rightarrow> (exn + CommentEntry option) \<times> 's) \<Rightarrow>
   CommentEntry \<Rightarrow> 's \<times> event list \<Rightarrow> (exn + CommentEntry option) \<times> 's \<times> event list" where
  "logSave saveComment entry = (\<lambda>(s, tr).
     case saveComment entry s of (r, s') \<Rightarrow> (r, (s', tr @ [EvSave entry (savedOk r)])))"

definition logAdjust ::
  "(int option \<Rightarrow> 's \<Rightarrow> (exn + unit) \<times> 's) \<Rightarrow>
   int option \<Rightarrow> 's \<times> event list \<Rightarrow> (exn + unit) \<times> 's \<times> event list" where
  "logAdjust adjustUnread delta = (\<lambda>(s, tr).
     case adjustUnread delta s of (r, s') \<Rightarrow> (r, (s', tr @ [EvAdjust delta])))"

text \<open>The calls of one entry's reconciliation, started with an empty list.\<close>

definition entryCalls ::
  "'s env \<Rightarrow> (string \<Rightarrow> string \<Rightarrow> 's \<Rightarrow> CommentEntry option) \<Rightarrow>
   (CommentEntry \<Rightarrow> 's \<Rightarrow> (exn + CommentEntry option) \<times> 's) \<Rightarrow>
   (int option \<Rightarrow> 's \<Rightarrow> (exn + unit) \<times> 's) \<Rightarrow> CommentEntry \<Rightarrow> 's \<Rightarrow> event list" where
  "entryCalls env getComment saveComment adjustUnread comment s =
     snd (snd (reconcileEntry (logEnv env) (logGet getComment) (logSave saveComment)
                 (logAdjust adjustUnread) comment (s, [])))"

definition isSave :: "event \<Rightarrow> bool" where
  "isSave e = (case e of EvSave entry ok \<Rightarrow> True | _ \<Rightarrow> False)"

definition isAdjust :: "event \<Rightarrow> bool" where
  "isAdjust e = (case e of EvAdjust d \<Rightarrow> True | _ \<Rightarrow> False)"

text \<open>The request that \<open>fetchResCountForComment\<close> makes for valid identifiers.\<close>

definition fetchCalls :: "string \<Rightarrow> string \<Rightarrow> event list" where
  "fetchCalls t c =
     (if \<not> validateTopicId t \<or> \<not> validateCommentNumber c then []
      else
        (case calculatePageNumber (codeUnits c) of
           PageNo pageNumber \<Rightarrow> [EvFetch t pageNumber c]
         | Unmodelled \<Rightarrow> []))"

text \<open>The calls of one invocation of the crawl cycle.\<close>

definition cycleCalls ::
  "'s env \<Rightarrow> CommentEntry list \<Rightarrow> (string \<Rightarrow> string \<Rightarrow> 's \<Rightarrow> CommentEntry option) \<Rightarrow>
   (CommentEntry \<Rightarrow> 's \<Rightarrow> (exn + CommentEntry option) \<times> 's) \<Rightarrow>
   (int option \<Rightarrow> 's \<Rightarrow> (exn + unit) \<times> 's) \<Rightarrow> 's crawler \<Rightarrow> event list" where
  "cycleCalls env commentList getComment saveComment adjustUnread c =
     snd (world (snd (crawlCommentsOnce (liftEnv (logEnv env)) commentList
            (liftGet (logGet getComment)) (liftCall (logSave saveComment))
            (liftCall (logAdjust adjustUnread))
            \<lparr>isCrawling = isCrawling c, world = (world c, [])\<rparr>)))"

section \<open>The entry cache and the capacity limit (services/comment-service)\<close>

text \<open>
  The state of the background page: the browser storage (comment records, the unread
  total, the \<open>crawler:enabled\<close> flag) and the in-memory cache, a JavaScript \<open>Map\<close>
  kept as a list of key/value pairs in insertion order.
\<close>

record page = storage +
  commentCache :: "(string \<times> CommentEntry) list"
  unreadTotal :: "int option"
  crawlerEnabled :: "bool option"

text \<open>\<open>Map.set\<close>: a present key keeps its place, a new key goes to the end.\<close>

fun cacheSet :: "string \<Rightarrow> CommentEntry \<Rightarrow> (string \<times> CommentEntry) list \<Rightarrow>
    (string \<times> CommentEntry) list" where
  "cacheSet k v [] = [(k, v)]"
| "cacheSet k v ((k', v') # rest) =
     (if k = k' then (k, v) # rest else (k', v') # cacheSet k v rest)"

definition cacheDelete :: "string \<Rightarrow> (string \<times> CommentEntry) list \<Rightarrow>
    (string \<times> CommentEntry) list" where
  "cacheDelete k cache = filter (\<lambda>kv. fst kv \<noteq> k) cache"

definition getAllCommentsFromCache :: "'a page_scheme \<Rightarrow> CommentEntry list" where
  "getAllCommentsFromCache w = map snd (commentCache w)"

definition getCommentFromCache :: "string \<Rightarrow> string \<Rightarrow> 'a page_scheme \<Rightarrow> CommentEntry option" where
  "getCommentFromCache t c w = map_of (commentCache w) (getCommentKey t c)"

definition deleteCommentFromStorage ::
  "string \<Rightarrow> string \<Rightarrow> 'a storage_scheme \<Rightarrow> (exn + unit) \<times> 'a storage_scheme" where
  "deleteCommentFromStorage t c w = storage_removeItem (getStorageKey t c) w"

definition deleteComment ::
  "string \<Rightarrow> string \<Rightarrow> 'a page_scheme \<Rightarrow> (exn + unit) \<times> 'a page_scheme" where
  "deleteComment t c w =
     (case deleteCommentFromStorage t c w of
        (Inl e, w1) \<Rightarrow> (Inl e, w1)
      | (Inr u, w1) \<Rightarrow>
          (Inr (), w1\<lparr>commentCache := cacheDelete (getCommentKey t c) (commentCache w1)\<rparr>))"

text \<open>
  \<open>Array.prototype.sort\<close> with a comparator: a stable sort, here by insertion. The
  comparator of \<open>enforceMaxEntries\<close> is the difference of the two \<open>updatedAt\<close> times;
  a \<open>NaN\<close> difference is taken as 0 by \<open>sort\<close>. A missing \<open>updatedAt\<close> has time
  \<open>NaN\<close>. With an invalid time stamp the comparator is not consistent and the order
  that \<open>sort\<close> produces is left to the implementation; what is proved about the order
  assumes valid time stamps.
\<close>

fun insertBy :: "('a \<Rightarrow> 'a \<Rightarrow> int) \<Rightarrow> 'a \<Rightarrow> 'a list \<Rightarrow> 'a list" where
  "insertBy cmp x [] = [x]"
| "insertBy cmp x (y # ys) = (if cmp x y \<le> 0 then x # y # ys else y # insertBy cmp x ys)"

definition sortBy :: "('a \<Rightarrow> 'a \<Rightarrow> int) \<Rightarrow> 'a list \<Rightarrow> 'a list" where
  "sortBy cmp xs = foldr (insertBy cmp) xs []"

definition entryTime :: "(string \<Rightarrow> int option) \<Rightarrow> CommentEntry \<Rightarrow> int option" where
  "entryTime getTime a = (case updatedAt a of None \<Rightarrow> None | Some s \<Rightarrow> getTime s)"

definition byUpdatedAt :: "(string \<Rightarrow> int option) \<Rightarrow> CommentEntry \<Rightarrow> CommentEntry \<Rightarrow> int" where
  "byUpdatedAt getTime a b =
     (case (entryTime getTime a, entryTime getTime b) of
        (Some timeA, Some timeB) \<Rightarrow> timeA - timeB
      | _ \<Rightarrow> 0)"

fun deleteComments :: "CommentEntry list \<Rightarrow> 'a page_scheme \<Rightarrow> (exn + unit) \<times> 'a page_scheme" where
  "deleteComments [] w = (Inr (), w)"
| "deleteComments (comment # rest) w =
     (case deleteComment (topicId comment) (commentNumber comment) w of
        (Inl e, w1) \<Rightarrow> (Inl e, w1)
      | (Inr u, w1) \<Rightarrow> deleteComments rest w1)"

text \<open>\<open>enforceMaxEntries\<close>, with the limit \<open>COMMENT_ENTRY_CONFIG.MAX_ENTRIES\<close> as a
  parameter.\<close>

definition enforceMaxEntries ::
  "(string \<Rightarrow> int option) \<Rightarrow> nat \<Rightarrow> 'a page_scheme \<Rightarrow> (exn + unit) \<times> 'a page_scheme" where
  "enforceMaxEntries getTime maxEntries w =
     (let allComments = getAllCommentsFromCache w;
          currentCount = length allComments
      in if currentCount \<le> maxEntries then (Inr (), w)
         else
           (let deleteCount = currentCount - maxEntries;
                sortedComments = sortBy (byUpdatedAt getTime) allComments;
                toDelete = take deleteCount sortedComments
            in deleteComments toDelete w))"

definition saveCommentMax ::
  "(string \<Rightarrow> int option) \<Rightarrow> (nat \<Rightarrow> string) \<Rightarrow> nat \<Rightarrow> CommentEntry \<Rightarrow> 'a page_scheme \<Rightarrow>
   (exn + CommentEntry option) \<times> 'a page_scheme" where
  "saveCommentMax getTime clock maxEntries entry w =
     (case saveCommentWithOptimisticLock getTime clock entry OPTIMISTIC_LOCK_MAX_RETRIES w of
        (False, w1) \<Rightarrow> (Inr None, w1)
      | (True, w1) \<Rightarrow>
          (case storage_getItem
                  (''local:comment:'' @ topicId entry @ '':'' @ commentNumber entry) w1 of
             (Inl e, w2) \<Rightarrow> (Inl e, w2)
           | (Inr updatedEntry, w2) \<Rightarrow>
               (case enforceMaxEntries getTime maxEntries
                       (case updatedEntry of
                          None \<Rightarrow> w2
                        | Some u \<Rightarrow>
                            w2\<lparr>commentCache :=
                                 cacheSet (getCommentKey (topicId entry) (commentNumber entry)) u
                                   (commentCache w2)\<rparr>) of
                  (Inl e, w3) \<Rightarrow> (Inl e, w3)
                | (Inr d, w3) \<Rightarrow> (Inr updatedEntry, w3))))"

definition saveComment ::
  "(string \<Rightarrow> int option) \<Rightarrow> (nat \<Rightarrow> string) \<Rightarrow> CommentEntry \<Rightarrow> 'a page_scheme \<Rightarrow>
   (exn + CommentEntry option) \<times> 'a page_scheme" where
  "saveComment getTime clock entry w = saveCommentMax getTime clock MAX_ENTRIES entry w"





section \<open>The unread total (entrypoints/background)\<close>

definition getUnreadTotal :: "'a page_scheme \<Rightarrow> (exn + int) \<times> 'a page_scheme" where
  "getUnreadTotal w =
     (case nextFault w of
        (True, w') \<Rightarrow> (Inl StorageError, w')
      | (False, w') \<Rightarrow> (Inr (case unreadTotal w' of None \<Rightarrow> 0 | Some n \<Rightarrow> n), w'))"

text \<open>\<open>setUnreadTotal\<close>: the badge and the popup message that follow the write are
  outside the state and cannot fail the call.\<close>

definition setUnreadTotal :: "int \<Rightarrow> 'a page_scheme \<Rightarrow> (exn + unit) \<times> 'a page_scheme" where
  "setUnreadTotal v w =
     (case nextFault w of
        (True, w') \<Rightarrow> (Inl StorageError, w')
      | (False, w') \<Rightarrow> (Inr (), w'\<lparr>unreadTotal := Some (max 0 v)\<rparr>))"

text \<open>\<open>adjustUnread\<close>: a delta of 0 or \<open>NaN\<close> is falsy and returns at once.\<close>

definition adjustUnread :: "int option \<Rightarrow> 'a page_scheme \<Rightarrow> (exn + unit) \<times> 'a page_scheme" where
  "adjustUnread delta w =
     (case delta of
        None \<Rightarrow> (Inr (), w)
      | Some d \<Rightarrow>
          if d = 0 then (Inr (), w)
          else
            (case getUnreadTotal w of
               (Inl e, w1) \<Rightarrow> (Inl e, w1)
             | (Inr cur, w1) \<Rightarrow> setUnreadTotal (cur + d) w1))"

text \<open>
  The total that \<open>recomputeBadge\<close> computes from the cache: the sum of the entries'
  \<open>Number(unreadCount) || 0\<close>.
\<close>

definition unreadSum :: "'a page_scheme \<Rightarrow> int" where
  "unreadSum w =
     foldl (\<lambda>acc it. acc + (case unreadCount it of Num u \<Rightarrow> u | _ \<Rightarrow> 0)) 0
       (getAllCommentsFromCache w)"

text \<open>\<open>storage.getItem(STORAGE_KEYS.CRAWLER_ENABLED)\<close> on the page state.\<close>

definition getCrawlerEnabledItem :: "'a page_scheme \<Rightarrow> (exn + bool option) \<times> 'a page_scheme" where
  "getCrawlerEnabledItem w =
     (case nextFault w of
        (True, w') \<Rightarrow> (Inl StorageError, w')
      | (False, w') \<Rightarrow> (Inr (crawlerEnabled w'), w'))"

section \<open>Concrete data for the instances below\<close>

text \<open>A table of \<open>new Date(s).getTime()\<close> on the date strings used below.\<close>

definition exGetTime :: "string \<Rightarrow> int option" where
  "exGetTime s =
     (if s = ''2024-01-01T00:00:00.000Z'' then Some 1704067200000
      else if s = ''2024-01-01T00:00:02.000Z'' then Some 1704067202000
      else if s = ''2024-01-01T00:00:05.000Z'' then Some 1704067205000
      else None)"

definition exClock :: "nat \<Rightarrow> string" where
  "exClock i = ''2024-01-01T00:00:05.000Z''"

definition exEntry :: CommentEntry where
  "exEntry = \<lparr>topicId = ''5123456'', topicTitle = Some ''t'', commentNumber = ''321'',
     postedAt = None, commentBody = Some ''b'', resCount = Num 5, unreadCount = Num 2,
     createdAt = ''2024-01-01T00:00:00.000Z'', updatedAt = Some ''2024-01-01T00:00:00.000Z'',
     version = Some 0\<rparr>"

definition exNewer :: CommentEntry where
  "exNewer = exEntry\<lparr>resCount := Num 9, unreadCount := Num 6,
     updatedAt := Some ''2024-01-01T00:00:02.000Z'', version := Some 4\<rparr>"

definition exStore :: storage where
  "exStore = \<lparr>items = [''local:comment:5123456:321'' \<mapsto> exNewer], faults = [True, False]\<rparr>"

definition exEmptyStore :: storage where
  "exEmptyStore = \<lparr>items = Map.empty, faults = [False, True]\<rparr>"

definition exFailingStore :: storage where
  "exFailingStore = \<lparr>items = Map.empty, faults = [True, True, True]\<rparr>"

text \<open>A page that tracks one entry, and the crawler's environment on it: the clock stands
  at 2024-01-01T00:00:05Z and the remote page answers with a given reply count.\<close>

definition exGetTime2 :: "string \<Rightarrow> int option" where
  "exGetTime2 s =
     (if s = ''2023-11-01T00:00:00.000Z'' then Some 1698796800000 else exGetTime s)"

definition exPageEnv :: "int option \<Rightarrow> page env" where
  "exPageEnv remote =
     \<lparr>Date_getTime = exGetTime2,
      Date_now = (\<lambda>w. 1704067205000),
      Date_toISOString = (\<lambda>w. ''2024-01-01T00:00:05.000Z''),
      getCrawlerEnabled = getCrawlerEnabledItem,
      httpResCount = (\<lambda>t p c w. (remote, w)),
      sleep = (\<lambda>ms w. w)\<rparr>"

definition exPage :: "CommentEntry \<Rightarrow> page" where
  "exPage tracked =
     \<lparr>items = [''local:comment:5123456:321'' \<mapsto> tracked], faults = [],
      commentCache = [(''5123456:321'', tracked)], unreadTotal = Some 5,
      crawlerEnabled = Some True\<rparr>"

definition exFive :: CommentEntry where
  "exFive = exEntry\<lparr>unreadCount := Num 5\<rparr>"

definition exRegressed :: CommentEntry where
  "exRegressed = exEntry\<lparr>resCount := Num 8, unreadCount := Num 5\<rparr>"

definition exNoCount :: CommentEntry where
  "exNoCount = exEntry\<lparr>resCount := Undefined\<rparr>"

definition exOld :: CommentEntry where
  "exOld = exEntry\<lparr>postedAt := Some ''2023-11-01T00:00:00.000Z''\<rparr>"

definition exIdle :: "page crawler" where
  "exIdle = \<lparr>isCrawling = False, world = exPage exFive\<rparr>"

definition exRunning :: "page crawler" where
  "exRunning = \<lparr>isCrawling = True, world = exPage exFive\<rparr>"

definition exFaultyPage :: page where
  "exFaultyPage = (exPage exFive)\<lparr>faults := [True, True, True]\<rparr>"

definition exSeven :: CommentEntry where
  "exSeven = exFive\<lparr>resCount := Num 7, unreadCount := Num 7,
     updatedAt := Some ''2024-01-01T00:00:05.000Z''\<rparr>"

text \<open>The same page with a storage whose fourth call throws: in a reconciliation that is
  the read of the unread total inside \<open>adjustUnread\<close>.\<close>

definition exAdjustFails :: page where
  "exAdjustFails = (exPage exFive)\<lparr>faults := [False, False, False, True]\<rparr>"

definition exAfterReconcile :: "nat \<times> page" where
  "exAfterReconcile =
     reconcileEntry (exPageEnv (Some 7)) getCommentFromCache (saveComment exGetTime2 exClock)
       adjustUnread exFive exAdjustFails"

text \<open>A second invocation of the cycle, for the entry \<open>exFive\<close> against a remote count
  of 9.\<close>

definition exSecond :: "page crawler \<Rightarrow> nat \<times> page crawler" where
  "exSecond =
     crawlCommentsOnce (liftEnv (exPageEnv (Some 9))) [exFive] (liftGet getCommentFromCache)
       (liftCall (saveComment exGetTime2 exClock)) (liftCall adjustUnread)"

text \<open>A page at its limit of two entries, and a third entry to save.\<close>

definition exB :: CommentEntry where
  "exB = exEntry\<lparr>commentNumber := ''322'', updatedAt := Some ''2024-01-01T00:00:02.000Z''\<rparr>"




text \<open>A page that tracks an old entry and a recent one.\<close>

definition exOldPage :: page where
  "exOldPage =
     \<lparr>items = [''local:comment:5123456:321'' \<mapsto> exOld,
               ''local:comment:5123456:322'' \<mapsto> exB],
      faults = [],
      commentCache = [(''5123456:321'', exOld), (''5123456:322'', exB)],
      unreadTotal = Some 4, crawlerEnabled = Some True\<rparr>"

section \<open>Properties of the page number\<close>

text \<open>
  The arithmetic of \<open>calculatePageNumber\<close> is exact as long as every intermediate value is
  an integer below \<open>2^53\<close>: such integers are doubles, and the quotient by 500 is rounded
  to a double whose floor is the integer quotient.\<close>

declare showDigits.simps [simp del]

lemma rne_exact: "0 < den \<Longrightarrow> rne (k * den) den = k"
  by (simp add: rne_def)

lemma bitlen_1: "bitlen 1 = 1" by code_simp
lemma bitlen_500: "bitlen 500 = 9" by code_simp

lemma binExp_lower:
  assumes "0 < p" and "p < 2 ^ 53" and "0 < d"
  shows "bitlen d - 1 \<le> binExp p d"
proof -
  have "bitlen p \<le> 53" using assms(2) by (simp add: bitlen_le_iff_power)
  then show ?thesis by (simp add: binExp_def Let_def)
qed

lemma toDouble_exact:
  assumes "0 \<le> p" and "p < 2 ^ 53"
  shows "toDouble p = p"
proof (cases "p = 0")
  case True
  then show ?thesis by (simp add: toDouble_def floorDouble_def)
next
  case False
  with assms have pos: "0 < p" by simp
  from binExp_lower [OF pos assms(2), of 1] have s: "0 \<le> binExp p 1" by (simp add: bitlen_1)
  have "rne (p * 2 ^ nat (binExp p 1)) 1 = p * 2 ^ nat (binExp p 1)"
    using rne_exact [of 1 "p * 2 ^ nat (binExp p 1)"] by simp
  with pos s show ?thesis
    by (simp add: toDouble_def floorDouble_def Let_def)
qed

lemma div_succ_no_carry:
  fixes m K :: int
  assumes K: "0 < K" and nd: "\<not> K dvd (m + 1)"
  shows "(m + 1) div K = m div K"
proof -
  define q t where "q = m div K" and "t = m mod K"
  have m: "m = K * q + t" by (simp add: q_def t_def)
  have t0: "0 \<le> t" and t1: "t < K" using K by (simp_all add: t_def)
  have "t + 1 \<noteq> K"
  proof
    assume "t + 1 = K"
    with m have "m + 1 = K * (q + 1)" by (simp add: algebra_simps)
    then have "K dvd (m + 1)" by simp
    with nd show False ..
  qed
  with t1 have lt: "t + 1 < K" by simp
  have "(m + 1) div K = (t + 1 + K * q) div K" using m by (simp add: algebra_simps)
  also have "\<dots> = (t + 1) div K + q" using K by simp
  also have "\<dots> = q" using t0 lt by (simp add: div_pos_pos_trivial)
  finally show ?thesis by (simp add: q_def)
qed

lemma rne_div_500:
  assumes p: "0 \<le> p" and k: "8 \<le> k"
  shows "rne (p * 2 ^ k) 500 div 2 ^ k = p div 500"
proof -
  define K :: int where "K = 2 ^ k"
  define m0 r where "m0 = (p * K) div 500" and "r = (p * K) mod 500"
  have K8: "256 \<le> K"
  proof -
    have "(2::int) ^ 8 \<le> 2 ^ k" using k by (intro power_increasing) simp_all
    then show ?thesis by (simp add: K_def)
  qed
  then have Kpos: "0 < K" by simp
  have N: "p * K = 500 * m0 + r" by (simp add: m0_def r_def)
  have r500: "r < 500" and r0: "0 \<le> r" by (simp_all add: r_def)
  have base: "m0 div K = p div 500"
  proof -
    have "m0 div K = (p * K) div (500 * K)"
      using Kpos by (simp add: m0_def zdiv_zmult2_eq)
    also have "\<dots> = p div 500" using Kpos by simp
    finally show ?thesis .
  qed
  have rn: "rne (p * K) 500 = (if 500 < 2 * r \<or> (2 * r = 500 \<and> odd m0) then m0 + 1 else m0)"
    by (simp only: rne_def Let_def m0_def r_def)
  show ?thesis
  proof (cases "500 < 2 * r \<or> (2 * r = 500 \<and> odd m0)")
    case False
    with rn have "rne (p * K) 500 = m0" by (simp only: if_False)
    with base show ?thesis by (simp add: K_def)
  next
    case True
    then have r250: "250 \<le> r" by auto
    have nd: "\<not> K dvd (m0 + 1)"
    proof
      assume "K dvd (m0 + 1)"
      then obtain c where c: "m0 + 1 = K * c" by (auto simp: dvd_def)
      then have "500 * m0 = 500 * (K * c) - 500" by simp
      with N have "500 - r = K * (500 * c) - K * p" by (simp add: algebra_simps)
      then have "500 - r = K * (500 * c - p)" by (simp add: algebra_simps)
      then have "K dvd (500 - r)" by simp
      moreover have "0 < 500 - r" using r500 by simp
      ultimately have "K \<le> 500 - r" by (rule zdvd_imp_le)
      with r250 K8 show False by simp
    qed
    from True rn have "rne (p * K) 500 = m0 + 1" by (simp only: if_True)
    with div_succ_no_carry [OF Kpos nd] base show ?thesis by (simp add: K_def)
  qed
qed

lemma floorDouble_500:
  assumes "0 \<le> p" and "p < 2 ^ 53"
  shows "floorDouble p 500 = p div 500"
proof (cases "p = 0")
  case True
  then show ?thesis by (simp add: floorDouble_def)
next
  case False
  with assms have pos: "0 < p" by simp
  from binExp_lower [OF pos assms(2), of 500] have s: "8 \<le> binExp p 500"
    by (simp add: bitlen_500)
  then have k: "8 \<le> nat (binExp p 500)" by simp
  from s have neg: "nat (- binExp p 500) = 0" by simp
  from rne_div_500 [OF assms(1) k] pos s show ?thesis
    by (simp add: floorDouble_def Let_def neg)
qed


lemma of_char_digitChar: "0 \<le> d \<Longrightarrow> d < 10 \<Longrightarrow> (of_char (digitChar d) :: int) = 48 + d"
  by (simp add: digitChar_def)

lemma isDigit_digitChar: "0 \<le> d \<Longrightarrow> d < 10 \<Longrightarrow> isDigit (digitChar d)"
  by (simp add: isDigit_def of_char_digitChar)

lemma showDigits_digits: "0 \<le> n \<Longrightarrow> \<forall>c \<in> set (showDigits n). isDigit c"
proof (induction n rule: showDigits.induct)
  case (1 n)
  show ?case
  proof (cases "n < 10")
    case True
    with 1 show ?thesis by (subst showDigits.simps) (simp add: isDigit_digitChar)
  next
    case False
    with 1 show ?thesis by (subst showDigits.simps) (simp add: isDigit_digitChar)
  qed
qed

lemma showDigits_nonempty: "showDigits n \<noteq> []"
  by (subst showDigits.simps) simp

lemma digitsVal_snoc: "digitsVal (ds @ [u]) = digitsVal ds * 10 + (u - 48)"
  by (simp add: digitsVal_def)

lemma digitsVal_showDigits: "0 \<le> n \<Longrightarrow> digitsVal (codeUnits (showDigits n)) = n"
proof (induction n rule: showDigits.induct)
  case (1 n)
  show ?case
  proof (cases "n < 10")
    case True
    with 1 show ?thesis
      by (subst showDigits.simps) (simp add: digitsVal_def codeUnits_def of_char_digitChar)
  next
    case False
    with 1 have "digitsVal (codeUnits (showDigits (n div 10))) = n div 10" by simp
    with False 1 show ?thesis
      by (subst showDigits.simps)
         (simp add: codeUnits_def digitsVal_snoc of_char_digitChar)
  qed
qed

lemma digits_codeUnits:
  "list_all isDigit c \<Longrightarrow> \<forall>u \<in> set (codeUnits c). isDecimalDigit u"
  by (auto simp: list_all_iff codeUnits_def isDigit_def isDecimalDigit_def)

text \<open>A string of decimal digits parses to its value.\<close>

lemma parseInt10_digits:
  assumes ne: "ds \<noteq> []" and dig: "\<forall>u \<in> set ds. isDecimalDigit u"
  shows "parseInt10 ds = Some (digitsVal ds)"
proof -
  obtain u r where s: "ds = u # r" using ne by (cases ds) auto
  from dig s have u: "isDecimalDigit u" by simp
  then have nw: "\<not> isStrWhiteSpace u" and ns: "u \<noteq> 45" "u \<noteq> 43"
    by (auto simp: isDecimalDigit_def isStrWhiteSpace_def)
  have twr: "takeWhile isDecimalDigit r = r"
    using dig s by (intro takeWhile_eq_all_conv [THEN iffD2]) simp
  show ?thesis
    unfolding s using nw ns u by (simp add: parseInt10_def Let_def twr)
qed

lemma digitsVal_bounds:
  "\<forall>u \<in> set ds. isDecimalDigit u \<Longrightarrow> 0 \<le> digitsVal ds \<and> digitsVal ds < 10 ^ length ds"
proof (induction ds rule: rev_induct)
  case Nil
  then show ?case by (simp add: digitsVal_def)
next
  case (snoc u ds)
  then have ih: "0 \<le> digitsVal ds" "digitsVal ds < 10 ^ length ds" by simp_all
  from snoc.prems have u: "48 \<le> u" "u \<le> 57" by (simp_all add: isDecimalDigit_def)
  from ih(2) have "digitsVal ds + 1 \<le> 10 ^ length ds" by simp
  then have "(digitsVal ds + 1) * 10 \<le> 10 ^ length ds * 10" by (rule mult_right_mono) simp
  with ih(1) u show ?case by (simp add: digitsVal_snoc)
qed

lemma parseInt10_showInt:
  assumes "0 \<le> n"
  shows "parseInt10 (codeUnits (showInt n)) = Some n"
proof -
  have "codeUnits (showDigits n) \<noteq> []" using showDigits_nonempty by (simp add: codeUnits_def)
  moreover have "\<forall>u \<in> set (codeUnits (showDigits n)). isDecimalDigit u"
    using showDigits_digits [OF assms] by (intro digits_codeUnits) (simp add: list_all_iff)
  ultimately show ?thesis
    using assms by (simp add: parseInt10_digits digitsVal_showDigits showInt_def)
qed

lemma toDouble_2_53: "toDouble 9007199254740992 = 9007199254740992"
  by code_simp

text \<open>Up to \<open>2^53\<close> the doubles compute the page number exactly.\<close>

lemma page_in_safe_range:
  assumes parse: "parseInt10 s = Some z" and pos: "0 < z" and safe: "z \<le> 2 ^ 53"
  shows "calculatePageNumber s = PageNo (showInt ((z - 1) div 500 + 1))"
proof -
  have n: "toDouble z = z"
  proof (cases "z = 2 ^ 53")
    case True
    then show ?thesis using toDouble_2_53 by simp
  next
    case False
    with safe pos show ?thesis by (intro toDouble_exact) simp_all
  qed
  have a: "toDouble (z - 1) = z - 1" using pos safe by (intro toDouble_exact) simp_all
  have q: "floorDouble (z - 1) 500 = (z - 1) div 500"
    using pos safe by (intro floorDouble_500) simp_all
  have "(z - 1) div 500 + 1 < 2 ^ 53" using pos safe by simp
  moreover have "0 \<le> (z - 1) div 500 + 1" using pos by simp
  ultimately have r: "toDouble ((z - 1) div 500 + 1) = (z - 1) div 500 + 1"
    by (intro toDouble_exact)
  have "\<not> (10::int) ^ 18 \<le> z" using safe by simp
  with parse pos show ?thesis
    by (simp add: calculatePageNumber_def Let_def n a q r COMMENTS_PER_PAGE_def)
qed

lemma calculatePageNumber_showInt:
  assumes "0 < k" and "k \<le> 2 ^ 53"
  shows "calculatePageNumber (codeUnits (showInt k)) = PageNo (showInt ((k - 1) div 500 + 1))"
  using assms by (intro page_in_safe_range parseInt10_showInt) simp_all

text \<open>A validated comment number (one to ten decimal digits) is in that range.\<close>

lemma validated_page:
  assumes v: "validateCommentNumber c"
  shows "calculatePageNumber (codeUnits c) =
     PageNo (if digitsVal (codeUnits c) \<le> 0 then ''1''
             else showInt ((digitsVal (codeUnits c) - 1) div 500 + 1))"
proof -
  let ?u = "codeUnits c"
  from v have ne: "?u \<noteq> []" and len: "length ?u \<le> 10"
    and dig: "\<forall>u \<in> set ?u. isDecimalDigit u"
    using digits_codeUnits [of c]
    by (simp_all add: validateCommentNumber_def codeUnits_def)
  have p: "parseInt10 ?u = Some (digitsVal ?u)" using ne dig by (rule parseInt10_digits)
  have "digitsVal ?u < 10 ^ length ?u" using digitsVal_bounds [OF dig] by simp
  also have "(10::int) ^ length ?u \<le> 10 ^ 10" using len by (intro power_increasing) simp_all
  finally have b: "digitsVal ?u \<le> 2 ^ 53" by simp
  show ?thesis
  proof (cases "digitsVal ?u \<le> 0")
    case True
    with p show ?thesis by (simp add: calculatePageNumber_def)
  next
    case False
    with p b show ?thesis by (simp add: page_in_safe_range)
  qed
qed

text \<open>
  C9, as amended. For every string of UTF-16 code units, \<open>calculatePageNumber\<close> returns
  \<open>"1"\<close> when \<open>parseInt\<close> gives \<open>NaN\<close> and when it gives a value that is not positive; when
  it gives \<open>n\<close> with \<open>0 < n \<le> 2^53\<close> the result is the decimal string of
  \<open>\<lfloor>(n - 1) / 500\<rfloor> + 1\<close>, where 500 is \<open>COMMENTS_PER_PAGE\<close>. That range holds
  the decimal string of every positive integer up to \<open>2^53\<close> and every validated comment
  number; comment 500 is on page 1 and comment 501 on page 2.\<close>

theorem calculatePageNumber_safe_range:
  "(parseInt10 s = None \<longrightarrow> calculatePageNumber s = PageNo ''1'') \<and>
   (\<forall>n. parseInt10 s = Some n \<and> n \<le> 0 \<longrightarrow> calculatePageNumber s = PageNo ''1'') \<and>
   (\<forall>n. parseInt10 s = Some n \<and> 0 < n \<and> n \<le> 2 ^ 53 \<longrightarrow>
        calculatePageNumber s = PageNo (showInt ((n - 1) div COMMENTS_PER_PAGE + 1))) \<and>
   (\<forall>k. 0 < k \<and> k \<le> 2 ^ 53 \<longrightarrow>
        calculatePageNumber (codeUnits (showInt k)) =
          PageNo (showInt ((k - 1) div COMMENTS_PER_PAGE + 1))) \<and>
   (\<forall>c. validateCommentNumber c \<longrightarrow>
        calculatePageNumber (codeUnits c) =
          PageNo (if digitsVal (codeUnits c) \<le> 0 then ''1''
                  else showInt ((digitsVal (codeUnits c) - 1) div COMMENTS_PER_PAGE + 1))) \<and>
   calculatePageNumber (codeUnits ''500'') = PageNo ''1'' \<and>
   calculatePageNumber (codeUnits ''501'') = PageNo ''2''"
proof -
  have "calculatePageNumber (codeUnits ''500'') = PageNo ''1''" by code_simp
  moreover have "calculatePageNumber (codeUnits ''501'') = PageNo ''2''" by code_simp
  moreover have "\<forall>k. 0 < k \<and> k \<le> 2 ^ 53 \<longrightarrow>
      calculatePageNumber (codeUnits (showInt k)) =
        PageNo (showInt ((k - 1) div COMMENTS_PER_PAGE + 1))"
    using calculatePageNumber_showInt by (simp add: COMMENTS_PER_PAGE_def)
  moreover have "parseInt10 s = None \<longrightarrow> calculatePageNumber s = PageNo ''1''"
    by (simp add: calculatePageNumber_def)
  moreover have "\<forall>n. parseInt10 s = Some n \<and> n \<le> 0 \<longrightarrow> calculatePageNumber s = PageNo ''1''"
    by (simp add: calculatePageNumber_def)
  moreover have "\<forall>n. parseInt10 s = Some n \<and> 0 < n \<and> n \<le> 2 ^ 53 \<longrightarrow>
      calculatePageNumber s = PageNo (showInt ((n - 1) div COMMENTS_PER_PAGE + 1))"
    using page_in_safe_range [of s] by (simp add: COMMENTS_PER_PAGE_def)
  moreover have "\<forall>c. validateCommentNumber c \<longrightarrow>
        calculatePageNumber (codeUnits c) =
          PageNo (if digitsVal (codeUnits c) \<le> 0 then ''1''
                  else showInt ((digitsVal (codeUnits c) - 1) div COMMENTS_PER_PAGE + 1))"
    using validated_page by (simp add: COMMENTS_PER_PAGE_def)
  ultimately show ?thesis by blast
qed

theorem calculatePageNumber_safe_range_witness:
  "parseInt10 (codeUnits ''abc'') = None \<and>
   calculatePageNumber (codeUnits ''abc'') = PageNo ''1'' \<and>
   parseInt10 (codeUnits '' -12x'') = Some (- 12) \<and>
   calculatePageNumber (codeUnits '' -12x'') = PageNo ''1'' \<and>
   parseInt10 (codeUnits ''1001'') = Some 1001 \<and>
   calculatePageNumber (codeUnits ''1001'') = PageNo ''3'' \<and>
   calculatePageNumber (codeUnits (showInt 1500)) = PageNo ''3'' \<and>
   validateCommentNumber ''9999999999'' \<and>
   calculatePageNumber (codeUnits ''9999999999'') = PageNo ''20000000''"
proof -
  have a: "parseInt10 (codeUnits ''abc'') = None" by code_simp
  have b: "parseInt10 (codeUnits '' -12x'') = Some (- 12)" by code_simp
  have c: "parseInt10 (codeUnits ''1001'') = Some 1001" by code_simp
  have d: "showInt ((1001 - 1) div COMMENTS_PER_PAGE + 1) = ''3''" by code_simp
  have e: "showInt ((1500 - 1) div COMMENTS_PER_PAGE + 1) = ''3''" by code_simp
  have f: "validateCommentNumber ''9999999999''" by code_simp
  have g: "(if digitsVal (codeUnits ''9999999999'') \<le> 0 then ''1''
            else showInt ((digitsVal (codeUnits ''9999999999'') - 1) div COMMENTS_PER_PAGE + 1))
           = ''20000000''" by code_simp
  note t = calculatePageNumber_safe_range [of "codeUnits ''abc''"]
  note t2 = calculatePageNumber_safe_range [of "codeUnits '' -12x''"]
  note t3 = calculatePageNumber_safe_range [of "codeUnits ''1001''"]
  from t a have "calculatePageNumber (codeUnits ''abc'') = PageNo ''1''" by blast
  moreover from t2 b
  have "calculatePageNumber (codeUnits '' -12x'') = PageNo ''1''" by simp
  moreover from t3 c d
  have "calculatePageNumber (codeUnits ''1001'') = PageNo ''3''" by simp
  moreover from t e
  have "calculatePageNumber (codeUnits (showInt 1500)) = PageNo ''3''"
    by simp
  moreover from t f g
  have "calculatePageNumber (codeUnits ''9999999999'') = PageNo ''20000000''"
    by simp
  ultimately show ?thesis using a b c f by blast
qed

text \<open>
  Above \<open>2^53\<close> the formula no longer holds: \<open>"9007199254741000"\<close> parses to a double,
  \<open>n - 1\<close> is rounded back to \<open>n\<close> (a tie, to the even significand), and the page is
  18014398509483 where \<open>\<lfloor>(n - 1) / 500\<rfloor> + 1\<close> is 18014398509482.\<close>

theorem calculatePageNumber_rounding_counterexample:
  "parseInt10 (codeUnits ''9007199254741000'') = Some 9007199254741000 \<and>
   calculatePageNumber (codeUnits ''9007199254741000'') = PageNo ''18014398509483'' \<and>
   showInt ((9007199254741000 - 1) div COMMENTS_PER_PAGE + 1) = ''18014398509482''"
  by code_simp

section \<open>The optimistic lock\<close>

declare saveAttempts.simps [simp del]

lemma nextFault_items: "nextFault w = (f, w') \<Longrightarrow> items w' = items w"
  by (auto simp: nextFault_def split: list.splits)

lemma getItem_cases:
  "storage_getItem k w = (r, w') \<Longrightarrow>
     items w' = items w \<and> (r = Inl StorageError \<or> r = Inr (items w k))"
  by (auto simp: storage_getItem_def split: prod.splits bool.splits dest: nextFault_items)

lemma setItem_cases:
  "storage_setItem k v w = (r, w') \<Longrightarrow>
     (r = Inl StorageError \<and> items w' = items w) \<or>
     (r = Inr () \<and> items w' = (items w)(k \<mapsto> v))"
  by (auto simp: storage_setItem_def split: prod.splits bool.splits dest: nextFault_items)

lemma saveAttempts_stale:
  "existingIsNewer getTime (items w (getStorageKey (topicId entry) (commentNumber entry))) entry \<Longrightarrow>
   saveAttempts getTime clock entry m a w = (b, w') \<Longrightarrow> \<not> b \<and> items w' = items w"
proof (induction getTime clock entry m a w rule: saveAttempts.induct)
  case (1 getTime clock entry m a w)
  let ?k = "getStorageKey (topicId entry) (commentNumber entry)"
  show ?case
  proof (cases "a < m")
    case False
    with "1.prems" show ?thesis by (simp add: saveAttempts.simps)
  next
    case True
    obtain r w1 where g: "storage_getItem ?k w = (r, w1)" by (cases "storage_getItem ?k w")
    note gc = getItem_cases [OF g]
    show ?thesis
    proof (cases r)
      case (Inl x)
      with True g "1.prems"(2) have "saveAttempts getTime clock entry m (a + 1) w1 = (b, w')"
        by (simp add: saveAttempts.simps [of _ _ _ _ a])
      with "1.IH"(1) [OF True g [symmetric] Inl] "1.prems"(1) gc show ?thesis by simp
    next
      case (Inr cur)
      with gc have "cur = items w ?k" by auto
      with "1.prems"(1) have "existingIsNewer getTime cur entry" by simp
      with True g Inr "1.prems"(2) gc show ?thesis
        by (simp add: saveAttempts.simps [of _ _ _ _ a])
    qed
  qed
qed


lemma saveAttempts_cases:
  "saveAttempts getTime clock entry m a w = (b, w') \<Longrightarrow>
     (\<not> b \<and> items w' = items w) \<or>
     (b \<and> \<not> existingIsNewer getTime (items w (getStorageKey (topicId entry) (commentNumber entry))) entry \<and>
      (\<exists>i. a \<le> i \<and> i < m \<and>
         items w' = (items w)(getStorageKey (topicId entry) (commentNumber entry) \<mapsto>
            entry\<lparr>version := Some (currentVersion (items w (getStorageKey (topicId entry) (commentNumber entry))) + 1),
                   updatedAt := Some (clock i)\<rparr>)))"
proof (induction getTime clock entry m a w rule: saveAttempts.induct)
  case (1 getTime clock entry m a w)
  let ?k = "getStorageKey (topicId entry) (commentNumber entry)"
  show ?case
  proof (cases "a < m")
    case False
    with "1.prems" show ?thesis by (simp add: saveAttempts.simps)
  next
    case True
    obtain r w1 where g: "storage_getItem ?k w = (r, w1)" by (cases "storage_getItem ?k w")
    note gc = getItem_cases [OF g]
    show ?thesis
    proof (cases r)
      case (Inl x)
      with True g "1.prems" have "saveAttempts getTime clock entry m (a + 1) w1 = (b, w')"
        by (simp add: saveAttempts.simps [of _ _ _ _ a])
      moreover have eq: "items w1 = items w" using gc by simp
      ultimately show ?thesis
        using "1.IH"(1) [OF True g [symmetric] Inl] unfolding eq
        by (blast intro: add_leD1)
    next
      case (Inr cur)
      with gc have cur: "cur = items w ?k" by auto
      show ?thesis
      proof (cases "existingIsNewer getTime cur entry")
        case True
        with \<open>a < m\<close> g Inr "1.prems" gc show ?thesis
          by (simp add: saveAttempts.simps [of _ _ _ _ a])
      next
        case nn: False
        let ?v = "entry\<lparr>version := Some (currentVersion cur + 1), updatedAt := Some (clock a)\<rparr>"
        obtain r2 w2 where st: "storage_setItem ?k ?v w1 = (r2, w2)"
          by (cases "storage_setItem ?k ?v w1")
        note sc = setItem_cases [OF st]
        show ?thesis
        proof (cases r2)
          case (Inl y)
          with True g Inr nn st "1.prems"
          have "saveAttempts getTime clock entry m (a + 1) w2 = (b, w')"
            by (simp add: saveAttempts.simps [of _ _ _ _ a])
          moreover have eq: "items w2 = items w" using gc sc Inl by auto
          ultimately show ?thesis
            using "1.IH"(2) [OF True g [symmetric] Inr nn st [symmetric] Inl] unfolding eq
            by (blast intro: add_leD1)
        next
          case (Inr u)
          with True g \<open>r = Inr cur\<close> nn st "1.prems" have "b" "w' = w2"
            by (simp_all add: saveAttempts.simps [of _ _ _ _ a])
          with sc Inr gc cur nn True show ?thesis by auto
        qed
      qed
    qed
  qed
qed


text \<open>
  C2. A put onto a key whose stored record and the incoming entry both carry an
  \<open>updatedAt\<close>, the stored one strictly later, returns \<open>false\<close> and leaves the
  storage as it was: no field of the stored record changes and its version is not bumped.
  This holds whatever storage calls fail on the way and for every number of retries.
\<close>

theorem put_rejects_older_write:
  assumes "items w (getStorageKey (topicId entry) (commentNumber entry)) = Some cur"
    and "updatedAt cur = Some cu" and "cu \<noteq> []"
    and "updatedAt entry = Some eu" and "eu \<noteq> []"
    and "getTime cu = Some tc" and "getTime eu = Some te" and "te < tc"
  shows "fst (saveCommentWithOptimisticLock getTime clock entry maxRetries w) = False \<and>
         items (snd (saveCommentWithOptimisticLock getTime clock entry maxRetries w)) = items w"
proof -
  have "existingIsNewer getTime
          (items w (getStorageKey (topicId entry) (commentNumber entry))) entry"
    using assms by (simp add: existingIsNewer_def jsGreater_def)
  then show ?thesis
    using saveAttempts_stale [of getTime w entry clock maxRetries 0]
    by (cases "saveAttempts getTime clock entry maxRetries 0 w")
       (simp add: saveCommentWithOptimisticLock_def)
qed

text \<open>An instance: the stored record is two seconds newer than the incoming entry, and the
  first read of the storage fails.\<close>

theorem put_rejects_older_write_witness:
  "items exStore (getStorageKey (topicId exEntry) (commentNumber exEntry)) = Some exNewer \<and>
   updatedAt exNewer = Some ''2024-01-01T00:00:02.000Z'' \<and>
   updatedAt exEntry = Some ''2024-01-01T00:00:00.000Z'' \<and>
   exGetTime ''2024-01-01T00:00:02.000Z'' = Some 1704067202000 \<and>
   exGetTime ''2024-01-01T00:00:00.000Z'' = Some 1704067200000 \<and>
   fst (saveCommentWithOptimisticLock exGetTime exClock exEntry 3 exStore) = False \<and>
   items (snd (saveCommentWithOptimisticLock exGetTime exClock exEntry 3 exStore)) = items exStore"
proof -
  have k: "items exStore (getStorageKey (topicId exEntry) (commentNumber exEntry)) = Some exNewer"
    by (simp add: exStore_def exEntry_def getStorageKey_def)
  have u1: "updatedAt exNewer = Some ''2024-01-01T00:00:02.000Z''"
    by (simp add: exNewer_def)
  have u2: "updatedAt exEntry = Some ''2024-01-01T00:00:00.000Z''"
    by (simp add: exEntry_def)
  have t1: "exGetTime ''2024-01-01T00:00:02.000Z'' = Some 1704067202000"
    by (simp add: exGetTime_def)
  have t2: "exGetTime ''2024-01-01T00:00:00.000Z'' = Some 1704067200000"
    by (simp add: exGetTime_def)
  show ?thesis
    using put_rejects_older_write [OF k u1 _ u2 _ t1 t2, of exClock 3] k u1 u2 t1 t2
    by simp
qed

text \<open>
  C6. A put that returns \<open>true\<close> has stored the entry under its key with the version of
  the record stored before plus one, an absent record or an absent version counting as 0
  (so the first write of a key stores version 1), and with \<open>updatedAt\<close> set to the clock
  reading of the attempt that wrote; all other keys are unchanged. The stored version
  therefore grows by one with every successful write of a key.
\<close>

theorem put_success_bumps_version:
  assumes "saveCommentWithOptimisticLock getTime clock entry maxRetries w = (True, w')"
  shows "(\<exists>i<maxRetries.
            items w' = (items w)(getStorageKey (topicId entry) (commentNumber entry) \<mapsto>
              entry\<lparr>version := Some (currentVersion
                         (items w (getStorageKey (topicId entry) (commentNumber entry))) + 1),
                     updatedAt := Some (clock i)\<rparr>)) \<and>
         currentVersion (items w' (getStorageKey (topicId entry) (commentNumber entry))) =
           currentVersion (items w (getStorageKey (topicId entry) (commentNumber entry))) + 1 \<and>
         (items w (getStorageKey (topicId entry) (commentNumber entry)) = None \<longrightarrow>
            map_option version (items w' (getStorageKey (topicId entry) (commentNumber entry)))
              = Some (Some 1))"
proof -
  let ?k = "getStorageKey (topicId entry) (commentNumber entry)"
  from assms saveAttempts_cases [of getTime clock entry maxRetries 0 w True w']
  obtain i where i: "i < maxRetries"
    and w': "items w' = (items w)(?k \<mapsto>
        entry\<lparr>version := Some (currentVersion (items w ?k) + 1), updatedAt := Some (clock i)\<rparr>)"
    by (auto simp: saveCommentWithOptimisticLock_def)
  have "currentVersion (items w' ?k) = currentVersion (items w ?k) + 1"
    by (simp add: w' currentVersion_def)
  moreover have "items w ?k = None \<longrightarrow> map_option version (items w' ?k) = Some (Some 1)"
    by (simp add: w' currentVersion_def)
  ultimately show ?thesis using i w' by blast
qed


text \<open>An instance: a first write whose first attempt fails at the storage write.\<close>

theorem put_success_bumps_version_witness:
  "fst (saveCommentWithOptimisticLock exGetTime exClock exEntry 3 exEmptyStore) = True \<and>
   (\<exists>i<3. items (snd (saveCommentWithOptimisticLock exGetTime exClock exEntry 3 exEmptyStore)) =
      (items exEmptyStore)(getStorageKey (topicId exEntry) (commentNumber exEntry) \<mapsto>
         exEntry\<lparr>version := Some (currentVersion
              (items exEmptyStore (getStorageKey (topicId exEntry) (commentNumber exEntry))) + 1),
            updatedAt := Some (exClock i)\<rparr>)) \<and>
   map_option version (items (snd (saveCommentWithOptimisticLock exGetTime exClock exEntry 3
      exEmptyStore)) (getStorageKey (topicId exEntry) (commentNumber exEntry))) = Some (Some 1)"
proof -
  have r: "fst (saveCommentWithOptimisticLock exGetTime exClock exEntry 3 exEmptyStore) = True"
    by code_simp
  then have "saveCommentWithOptimisticLock exGetTime exClock exEntry 3 exEmptyStore =
      (True, snd (saveCommentWithOptimisticLock exGetTime exClock exEntry 3 exEmptyStore))"
    by (metis prod.collapse)
  from put_success_bumps_version [OF this] r show ?thesis
    by (simp add: exEmptyStore_def)
qed

text \<open>
  C7, as amended. Two puts of the same entry in sequence: when the first put wrote, or was
  rejected because a newer record is stored, the counters stored for the key after the
  second put are those stored after the first. The second put is always either a put that
  changes nothing or a write of the entry's own counters. (When the first put gave up on
  failing storage calls, the second may still write: see the counterexample.)
\<close>

theorem put_twice_same_counts:
  assumes first: "saveCommentWithOptimisticLock getTime clock1 entry m1 w = (b1, w1)"
    and second: "saveCommentWithOptimisticLock getTime clock2 entry m2 w1 = (b2, w2)"
  shows "(b1 \<or> existingIsNewer getTime
                 (items w (getStorageKey (topicId entry) (commentNumber entry))) entry
            \<longrightarrow> persistedCounts w2 entry = persistedCounts w1 entry) \<and>
         ((\<not> b2 \<and> items w2 = items w1) \<or>
          (b2 \<and> persistedCounts w2 entry = Some (unreadCount entry, resCount entry)))"
proof -
  let ?k = "getStorageKey (topicId entry) (commentNumber entry)"
  note c1 = saveAttempts_cases [OF first [unfolded saveCommentWithOptimisticLock_def]]
  note c2 = saveAttempts_cases [OF second [unfolded saveCommentWithOptimisticLock_def]]
  have snd_call: "(\<not> b2 \<and> items w2 = items w1) \<or>
      (b2 \<and> persistedCounts w2 entry = Some (unreadCount entry, resCount entry))"
    using c2 by (auto simp: persistedCounts_def)
  have "persistedCounts w2 entry = persistedCounts w1 entry" if b1
  proof -
    from c1 that have "persistedCounts w1 entry = Some (unreadCount entry, resCount entry)"
      by (auto simp: persistedCounts_def)
    with snd_call show ?thesis by (auto simp: persistedCounts_def)
  qed
  moreover have "persistedCounts w2 entry = persistedCounts w1 entry"
    if st: "existingIsNewer getTime (items w ?k) entry"
  proof -
    from c1 st have "items w1 = items w" by auto
    with st have "existingIsNewer getTime (items w1 ?k) entry" by simp
    with c2 have "items w2 = items w1" by auto
    then show ?thesis by (simp add: persistedCounts_def)
  qed
  ultimately show ?thesis using snd_call by blast
qed

theorem put_twice_same_counts_witness:
  "fst (saveCommentWithOptimisticLock exGetTime exClock exEntry 3 exEmptyStore) = True \<and>
   persistedCounts
     (snd (saveCommentWithOptimisticLock exGetTime exClock exEntry 3
        (snd (saveCommentWithOptimisticLock exGetTime exClock exEntry 3 exEmptyStore))))
     exEntry =
   persistedCounts
     (snd (saveCommentWithOptimisticLock exGetTime exClock exEntry 3 exEmptyStore)) exEntry"
proof -
  let ?w1 = "snd (saveCommentWithOptimisticLock exGetTime exClock exEntry 3 exEmptyStore)"
  have r: "fst (saveCommentWithOptimisticLock exGetTime exClock exEntry 3 exEmptyStore) = True"
    by code_simp
  then have first: "saveCommentWithOptimisticLock exGetTime exClock exEntry 3 exEmptyStore =
      (True, ?w1)"
    by (metis prod.collapse)
  have second: "saveCommentWithOptimisticLock exGetTime exClock exEntry 3 ?w1 =
      (fst (saveCommentWithOptimisticLock exGetTime exClock exEntry 3 ?w1),
       snd (saveCommentWithOptimisticLock exGetTime exClock exEntry 3 ?w1))"
    by simp
  from put_twice_same_counts [OF first second] r show ?thesis by blast
qed

text \<open>
  The claim C7 as stated fails when the first put exhausts its retries: with three failing
  storage reads the first put returns \<open>false\<close> and stores nothing, and the second put of
  the same entry then writes it. After two puts the key holds the entry's counters, after
  one put it holds none.
\<close>

theorem put_twice_counterexample:
  "persistedCounts
     (snd (saveCommentWithOptimisticLock exGetTime exClock exEntry 3
        (snd (saveCommentWithOptimisticLock exGetTime exClock exEntry 3 exFailingStore))))
     exEntry = Some (Num 2, Num 5) \<and>
   persistedCounts
     (snd (saveCommentWithOptimisticLock exGetTime exClock exEntry 3 exFailingStore))
     exEntry = None"
  by code_simp


section \<open>The crawl engine\<close>


lemma logEnv_simps [simp]:
  "Date_getTime (logEnv env) = Date_getTime env"
  "Date_now (logEnv env) (s, tr) = Date_now env s"
  "Date_toISOString (logEnv env) (s, tr) = Date_toISOString env s"
  "getCrawlerEnabled (logEnv env) (s, tr) =
     (fst (getCrawlerEnabled env s), (snd (getCrawlerEnabled env s), tr @ [EvEnabled]))"
  "httpResCount (logEnv env) t p c (s, tr) =
     (fst (httpResCount env t p c s), (snd (httpResCount env t p c s), tr @ [EvFetch t p c]))"
  "sleep (logEnv env) ms (s, tr) = (sleep env ms s, tr @ [EvSleep ms])"
  by (simp_all add: logEnv_def split: prod.splits)

lemma tooOld_logEnv [simp]: "tooOld (logEnv env) p (s, tr) = tooOld env p s"
  by (simp add: tooOld_def split: option.splits)


lemma fetch_logEnv:
  "fetchResCountForComment (logEnv env) t c (s, tr) =
     (fst (fetchResCountForComment env t c s),
      (snd (fetchResCountForComment env t c s), tr @ fetchCalls t c))"
  by (simp add: fetchResCountForComment_def fetchCalls_def split: pageNumber.splits)

lemma logSave_apply:
  "logSave sv e (s, tr) = (fst (sv e s), (snd (sv e s), tr @ [EvSave e (savedOk (fst (sv e s)))]))"
  by (simp add: logSave_def split: prod.splits)

lemma logAdjust_apply:
  "logAdjust adj d (s, tr) = (fst (adj d s), (snd (adj d s), tr @ [EvAdjust d]))"
  by (simp add: logAdjust_def split: prod.splits)

lemma logGet_apply: "logGet g t c (s, tr) = g t c s"
  by (simp add: logGet_def)


lemma entryCalls_char:
  "entryCalls env g sv adj c s =
     (let previous = (case g (topicId c) (commentNumber c) s of None \<Rightarrow> c | Some p \<Rightarrow> p)
      in if tooOld env previous s then []
         else
           (case fetchResCountForComment env (topicId c) (commentNumber c) s of
              (None, s1) \<Rightarrow> fetchCalls (topicId c) (commentNumber c)
            | (Some r, s1) \<Rightarrow>
                (let unread = computeUnread (resCount previous) (unreadCount previous) r;
                     delta = jsMinus unread (unreadCount previous);
                     upd = previous\<lparr>resCount := Num r, unreadCount := Num unread,
                             updatedAt := Some (Date_toISOString env s1)\<rparr>
                 in fetchCalls (topicId c) (commentNumber c) @
                    (if delta \<noteq> Some 0 \<or> Num r \<noteq> resCount previous then
                       EvSave upd (savedOk (fst (sv upd s1))) #
                       (if savedOk (fst (sv upd s1)) \<and> delta \<noteq> Some 0
                        then [EvAdjust delta] else [])
                     else []))))"
  unfolding entryCalls_def reconcileEntry_def
  by (simp add: Let_def fetch_logEnv logSave_apply logAdjust_apply logGet_apply savedOk_def
        split: prod.splits option.splits sum.splits)


lemma computeUnread_Num: "computeUnread (Num p) (Num u) r = max 0 (r - p + u)"
  by (simp add: computeUnread_def)

lemma computeUnread_missing:
  "pr = Null \<or> pr = Undefined \<Longrightarrow> computeUnread pr pu r = 0"
  by (auto simp: computeUnread_def)

text \<open>
  C1, as amended. An entry is reconciled whose stored reply count is a number \<open>p\<close>, and
  the fetch gives the number \<open>r\<close>; \<open>u\<close> is the stored unread count, a missing one
  counting as 0. The new unread count is \<open>max(0, (r - p) + u)\<close>: it is never negative,
  and it is 0 exactly when \<open>r - p + u \<le> 0\<close>. Every entry handed to \<open>saveComment\<close>
  carries this unread count and the reply count \<open>r\<close>, and when nothing is handed over,
  the stored counts already are these values. The prior unread accumulates: stored (5, 5)
  and remote 7 give 7; stored (8, 0) and remote 6 give 0.
\<close>

theorem reconcile_unread_formula:
  assumes prev: "previous = (case g (topicId c) (commentNumber c) s of None \<Rightarrow> c | Some q \<Rightarrow> q)"
    and rc: "resCount previous = Num p"
    and uc: "u = (case unreadCount previous of Num x \<Rightarrow> x | Null \<Rightarrow> 0 | Undefined \<Rightarrow> 0)"
    and young: "\<not> tooOld env previous s"
    and fetched: "fetchResCountForComment env (topicId c) (commentNumber c) s = (Some r, s1)"
  shows "computeUnread (resCount previous) (unreadCount previous) r = max 0 (r - p + u) \<and>
         0 \<le> computeUnread (resCount previous) (unreadCount previous) r \<and>
         (computeUnread (resCount previous) (unreadCount previous) r = 0 \<longleftrightarrow> r - p + u \<le> 0) \<and>
         (\<forall>e ok. EvSave e ok \<in> set (entryCalls env g sv adj c s) \<longrightarrow>
            unreadCount e = Num (max 0 (r - p + u)) \<and> resCount e = Num r) \<and>
         ((\<forall>e ok. EvSave e ok \<notin> set (entryCalls env g sv adj c s)) \<longrightarrow>
            max 0 (r - p + u) = u \<and> r = p) \<and>
         computeUnread (Num 5) (Num 5) 7 = 7 \<and>
         computeUnread (Num 8) (Num 0) 6 = 0"
proof -
  let ?n = "max 0 (r - p + u)"
  let ?d = "jsMinus ?n (unreadCount previous)"
  let ?upd = "previous\<lparr>resCount := Num r, unreadCount := Num ?n,
                updatedAt := Some (Date_toISOString env s1)\<rparr>"
  have f: "computeUnread (resCount previous) (unreadCount previous) r = ?n"
    by (simp add: rc uc computeUnread_def split: jsnum.splits)
  have f': "computeUnread (Num p) (unreadCount previous) r = ?n"
    using f by (simp add: rc)
  have calls: "entryCalls env g sv adj c s =
      fetchCalls (topicId c) (commentNumber c) @
      (if ?d \<noteq> Some 0 \<or> r \<noteq> p then
         EvSave ?upd (savedOk (fst (sv ?upd s1))) #
         (if savedOk (fst (sv ?upd s1)) \<and> ?d \<noteq> Some 0 then [EvAdjust ?d] else [])
       else [])"
    using young fetched
    by (auto simp add: entryCalls_char prev [symmetric] Let_def rc f')
  have nofetch: "EvSave e ok \<notin> set (fetchCalls t cn)" for e ok t cn
    by (simp add: fetchCalls_def split: pageNumber.splits)
  have saves: "\<forall>e ok. EvSave e ok \<in> set (entryCalls env g sv adj c s) \<longrightarrow>
      unreadCount e = Num ?n \<and> resCount e = Num r"
    unfolding calls by (auto simp: nofetch)
  have unchanged: "?n = u" if "?d = Some 0"
    using that by (cases "unreadCount previous") (simp_all add: jsMinus_def uc)
  have nosave: "(\<forall>e ok. EvSave e ok \<notin> set (entryCalls env g sv adj c s)) \<longrightarrow>
      ?n = u \<and> r = p"
    unfolding calls using unchanged by (auto split: if_splits)
  have ex: "computeUnread (Num 5) (Num 5) 7 = 7 \<and> computeUnread (Num 8) (Num 0) 6 = 0"
    by (simp add: computeUnread_def)
  have nn: "0 \<le> computeUnread (resCount previous) (unreadCount previous) r"
    by (simp add: f)
  have z: "computeUnread (resCount previous) (unreadCount previous) r = 0 \<longleftrightarrow> r - p + u \<le> 0"
    by (auto simp: f)
  from f nn z saves nosave ex show ?thesis by blast
qed

lemma exFive_previous:
  "(case getCommentFromCache (topicId exFive) (commentNumber exFive) (exPage exFive) of
      None \<Rightarrow> exFive | Some q \<Rightarrow> q) = exFive"
  by (simp add: getCommentFromCache_def exPage_def exFive_def exEntry_def getCommentKey_def)

lemma ex_valid_ids: "validateTopicId ''5123456''" "validateCommentNumber ''321''"
  by (simp_all add: validateTopicId_def validateCommentNumber_def isDigit_def)

lemma ex_page: "calculatePageNumber (codeUnits ''321'') = PageNo ''1''"
  by code_simp

lemma ex_fetch:
  "topicId e = ''5123456'' \<Longrightarrow> commentNumber e = ''321'' \<Longrightarrow>
   fetchResCountForComment (exPageEnv remote) (topicId e) (commentNumber e) w = (remote, w)"
  by (simp add: fetchResCountForComment_def ex_valid_ids ex_page exPageEnv_def)

text \<open>An instance on a page that tracks one entry with counts (5, 5), the remote page
  answering 7.\<close>

theorem reconcile_unread_formula_witness:
  "(case getCommentFromCache (topicId exFive) (commentNumber exFive) (exPage exFive) of
      None \<Rightarrow> exFive | Some q \<Rightarrow> q) = exFive \<and>
   resCount exFive = Num 5 \<and> unreadCount exFive = Num 5 \<and>
   \<not> tooOld (exPageEnv (Some 7)) exFive (exPage exFive) \<and>
   fetchResCountForComment (exPageEnv (Some 7)) (topicId exFive) (commentNumber exFive)
     (exPage exFive) = (Some 7, exPage exFive) \<and>
   computeUnread (resCount exFive) (unreadCount exFive) 7 = 7"
proof -
  have h1: "exFive = (case getCommentFromCache (topicId exFive) (commentNumber exFive)
      (exPage exFive) of None \<Rightarrow> exFive | Some q \<Rightarrow> q)"
    by (simp add: exFive_previous)
  have h2: "resCount exFive = Num 5" by (simp add: exFive_def exEntry_def)
  have u5: "unreadCount exFive = Num 5" by (simp add: exFive_def exEntry_def)
  then have h3: "5 = (case unreadCount exFive of Num x \<Rightarrow> x | Null \<Rightarrow> 0 | Undefined \<Rightarrow> 0)"
    by simp
  have h4: "\<not> tooOld (exPageEnv (Some 7)) exFive (exPage exFive)"
    by (simp add: tooOld_def exFive_def exEntry_def)
  have h5: "fetchResCountForComment (exPageEnv (Some 7)) (topicId exFive) (commentNumber exFive)
     (exPage exFive) = (Some 7, exPage exFive)"
    by (rule ex_fetch) (simp_all add: exFive_def exEntry_def)
  from reconcile_unread_formula [where g = getCommentFromCache and c = exFive
      and s = "exPage exFive" and env = "exPageEnv (Some 7)", OF h1 h2 h3 h4 h5]
    h1 h2 u5 h4 h5
  show ?thesis by simp
qed

text \<open>
  The claim C1 as stated has the unread count 0 whenever the remote count is below the
  stored one. With stored counts (8, 5) and remote 6 the new unread count is 3: the entry
  saved carries 3 and the total is adjusted by \<open>- 2\<close>.
\<close>

theorem reconcile_regression_counterexample:
  "resCount exRegressed = Num 8 \<and> unreadCount exRegressed = Num 5 \<and> (6::int) < 8 \<and>
   computeUnread (resCount exRegressed) (unreadCount exRegressed) 6 = 3 \<and>
   entryCalls (exPageEnv (Some 6)) getCommentFromCache (saveComment exGetTime2 exClock)
     adjustUnread exRegressed (exPage exRegressed) =
   [EvFetch ''5123456'' ''1'' ''321'',
    EvSave (exRegressed\<lparr>resCount := Num 6, unreadCount := Num 3,
              updatedAt := Some ''2024-01-01T00:00:05.000Z''\<rparr>) True,
    EvAdjust (Some (- 2))]"
  by code_simp

text \<open>
  C10. When the stored reply count of the entry is \<open>null\<close> or \<open>undefined\<close> and the
  fetch gives a number \<open>r\<close>, the new unread count is 0 whatever \<open>r\<close> is, and exactly
  one entry is handed to \<open>saveComment\<close>: the previous entry with unread count 0, reply
  count \<open>r\<close> and a fresh \<open>updatedAt\<close>.
\<close>

theorem reconcile_missing_previous_count:
  assumes prev: "previous = (case g (topicId c) (commentNumber c) s of None \<Rightarrow> c | Some q \<Rightarrow> q)"
    and missing: "resCount previous = Null \<or> resCount previous = Undefined"
    and young: "\<not> tooOld env previous s"
    and fetched: "fetchResCountForComment env (topicId c) (commentNumber c) s = (Some r, s1)"
  shows "computeUnread (resCount previous) (unreadCount previous) r = 0 \<and>
         (\<exists>e ok. filter isSave (entryCalls env g sv adj c s) = [EvSave e ok] \<and>
            unreadCount e = Num 0 \<and> resCount e = Num r \<and>
            e = previous\<lparr>resCount := Num r, unreadCount := Num 0,
                  updatedAt := Some (Date_toISOString env s1)\<rparr>)"
proof -
  have z: "computeUnread (resCount previous) (unreadCount previous) r = 0"
    using missing by (rule computeUnread_missing)
  have ne: "Num r \<noteq> resCount previous" using missing by auto
  have nosave: "filter isSave (fetchCalls t cn) = []" for t cn
    by (simp add: fetchCalls_def isSave_def split: pageNumber.splits)
  have "\<exists>ok. filter isSave (entryCalls env g sv adj c s) =
      [EvSave (previous\<lparr>resCount := Num r, unreadCount := Num 0,
                  updatedAt := Some (Date_toISOString env s1)\<rparr>) ok]"
    using young fetched ne
    by (simp add: entryCalls_char prev [symmetric] Let_def z nosave isSave_def)
  with z show ?thesis by auto
qed


theorem reconcile_missing_previous_count_witness:
  "(case getCommentFromCache (topicId exNoCount) (commentNumber exNoCount) (exPage exNoCount) of
      None \<Rightarrow> exNoCount | Some q \<Rightarrow> q) = exNoCount \<and>
   resCount exNoCount = Undefined \<and>
   \<not> tooOld (exPageEnv (Some 6)) exNoCount (exPage exNoCount) \<and>
   fetchResCountForComment (exPageEnv (Some 6)) (topicId exNoCount) (commentNumber exNoCount)
     (exPage exNoCount) = (Some 6, exPage exNoCount) \<and>
   computeUnread (resCount exNoCount) (unreadCount exNoCount) 6 = 0 \<and>
   (\<exists>ok. filter isSave (entryCalls (exPageEnv (Some 6)) getCommentFromCache
        (saveComment exGetTime2 exClock) adjustUnread exNoCount (exPage exNoCount)) =
      [EvSave (exNoCount\<lparr>resCount := Num 6, unreadCount := Num 0,
         updatedAt := Some ''2024-01-01T00:00:05.000Z''\<rparr>) ok])"
proof -
  have h1: "exNoCount = (case getCommentFromCache (topicId exNoCount) (commentNumber exNoCount)
      (exPage exNoCount) of None \<Rightarrow> exNoCount | Some q \<Rightarrow> q)"
    by (simp add: getCommentFromCache_def exPage_def exNoCount_def exEntry_def getCommentKey_def)
  have h2: "resCount exNoCount = Undefined" by (simp add: exNoCount_def)
  then have h2': "resCount exNoCount = Null \<or> resCount exNoCount = Undefined" by simp
  have h4: "\<not> tooOld (exPageEnv (Some 6)) exNoCount (exPage exNoCount)"
    by (simp add: tooOld_def exNoCount_def exEntry_def)
  have h5: "fetchResCountForComment (exPageEnv (Some 6)) (topicId exNoCount)
     (commentNumber exNoCount) (exPage exNoCount) = (Some 6, exPage exNoCount)"
    by (rule ex_fetch) (simp_all add: exNoCount_def exEntry_def)
  have iso: "Date_toISOString (exPageEnv (Some 6)) (exPage exNoCount) =
      ''2024-01-01T00:00:05.000Z''"
    by (simp add: exPageEnv_def)
  from reconcile_missing_previous_count [where g = getCommentFromCache and c = exNoCount
      and s = "exPage exNoCount" and env = "exPageEnv (Some 6)"
      and sv = "saveComment exGetTime2 exClock" and adj = adjustUnread, OF h1 h2' h4 h5]
    h1 h2 h4 h5
  show ?thesis unfolding iso by auto
qed

lemma tooOld_exceeds:
  assumes "postedAt previous = Some pa" and "pa \<noteq> []"
    and "Date_getTime env pa = Some posted"
    and "SKIP_AFTER_DAYS * MS_PER_DAY < Date_now env s - posted"
  shows "tooOld env previous s"
  using assms by (simp add: tooOld_def)

text \<open>
  C8. An entry whose \<open>postedAt\<close> lies more than \<open>SKIP_AFTER_DAYS\<close> = 31 days back is
  skipped: its reconciliation returns the state as it was and counts no update, no fetch,
  save or adjustment is called, and the loop goes on as after any entry, with the delay
  and the flag check and then the rest of the list.
\<close>

theorem old_entry_skipped:
  assumes prev: "previous = (case g (topicId c) (commentNumber c) s of None \<Rightarrow> c | Some q \<Rightarrow> q)"
    and pa: "postedAt previous = Some pa" and ne: "pa \<noteq> []"
    and tm: "Date_getTime env pa = Some posted"
    and age: "SKIP_AFTER_DAYS * MS_PER_DAY < Date_now env s - posted"
  shows "reconcileEntry env g sv adj c s = (0, s) \<and>
         entryCalls env g sv adj c s = [] \<and>
         (\<forall>s0 rest n. enabledNow env s0 = (True, s) \<longrightarrow>
            crawlLoop env g sv adj (c # rest) n s0 =
              (case afterEntry env s of
                 (False, s3) \<Rightarrow> (n, s3)
               | (True, s3) \<Rightarrow> crawlLoop env g sv adj rest n s3))"
proof -
  have old: "tooOld env previous s" using pa ne tm age by (rule tooOld_exceeds)
  then have r: "reconcileEntry env g sv adj c s = (0, s)"
    by (simp add: reconcileEntry_def prev [symmetric] Let_def)
  have e: "entryCalls env g sv adj c s = []"
    using old by (simp add: entryCalls_char prev [symmetric])
  have "crawlLoop env g sv adj (c # rest) n s0 =
      (case afterEntry env s of
         (False, s3) \<Rightarrow> (n, s3)
       | (True, s3) \<Rightarrow> crawlLoop env g sv adj rest n s3)"
    if "enabledNow env s0 = (True, s)" for s0 rest n
    using that by (simp add: r split: prod.splits bool.splits)
  with r e show ?thesis by blast
qed

text \<open>An instance: an entry posted 61 days back is skipped, and in a cycle over this
  entry and a recent one only the recent one is fetched and saved.\<close>

theorem old_entry_skipped_witness:
  "(case getCommentFromCache (topicId exOld) (commentNumber exOld) (exPage exOld) of
      None \<Rightarrow> exOld | Some q \<Rightarrow> q) = exOld \<and>
   postedAt exOld = Some ''2023-11-01T00:00:00.000Z'' \<and>
   Date_getTime (exPageEnv (Some 9)) ''2023-11-01T00:00:00.000Z'' = Some 1698796800000 \<and>
   SKIP_AFTER_DAYS * MS_PER_DAY < Date_now (exPageEnv (Some 9)) (exPage exOld) - 1698796800000 \<and>
   reconcileEntry (exPageEnv (Some 9)) getCommentFromCache (saveComment exGetTime2 exClock)
     adjustUnread exOld (exPage exOld) = (0, exPage exOld) \<and>
   entryCalls (exPageEnv (Some 9)) getCommentFromCache (saveComment exGetTime2 exClock)
     adjustUnread exOld (exPage exOld) = [] \<and>
   enabledNow (exPageEnv (Some 9)) (exPage exOld) = (True, exPage exOld) \<and>
   crawlLoop (exPageEnv (Some 9)) getCommentFromCache (saveComment exGetTime2 exClock)
     adjustUnread [exOld] 0 (exPage exOld) = (0, exPage exOld) \<and>
   cycleCalls (exPageEnv (Some 9)) [exOld, exB] getCommentFromCache
     (saveComment exGetTime2 exClock) adjustUnread \<lparr>isCrawling = False, world = exOldPage\<rparr> =
     [EvEnabled, EvSleep 3000, EvEnabled,
      EvEnabled, EvFetch ''5123456'' ''1'' ''322'',
      EvSave (exB\<lparr>resCount := Num 9, unreadCount := Num 6,
                updatedAt := Some ''2024-01-01T00:00:05.000Z''\<rparr>) True,
      EvAdjust (Some 4), EvSleep 3000, EvEnabled]"
proof -
  have h1: "exOld = (case getCommentFromCache (topicId exOld) (commentNumber exOld)
      (exPage exOld) of None \<Rightarrow> exOld | Some q \<Rightarrow> q)"
    by (simp add: getCommentFromCache_def exPage_def exOld_def exEntry_def getCommentKey_def)
  have h2: "postedAt exOld = Some ''2023-11-01T00:00:00.000Z''" by (simp add: exOld_def)
  have h3: "Date_getTime (exPageEnv (Some 9)) ''2023-11-01T00:00:00.000Z'' = Some 1698796800000"
    by (simp add: exPageEnv_def exGetTime2_def)
  have h4: "SKIP_AFTER_DAYS * MS_PER_DAY
      < Date_now (exPageEnv (Some 9)) (exPage exOld) - 1698796800000"
    by (simp add: exPageEnv_def SKIP_AFTER_DAYS_def MS_PER_DAY_def)
  have en: "enabledNow (exPageEnv (Some 9)) (exPage exOld) = (True, exPage exOld)"
    by (simp add: enabledNow_def exPageEnv_def getCrawlerEnabledItem_def nextFault_def exPage_def)
  have af: "afterEntry (exPageEnv (Some 9)) (exPage exOld) = (True, exPage exOld)"
    using en by (simp add: afterEntry_def exPageEnv_def)
  note t = old_entry_skipped [where g = getCommentFromCache and c = exOld
      and s = "exPage exOld" and env = "exPageEnv (Some 9)"
      and sv = "saveComment exGetTime2 exClock" and adj = adjustUnread, OF h1 h2 _ h3 h4]
  have "crawlLoop (exPageEnv (Some 9)) getCommentFromCache (saveComment exGetTime2 exClock)
     adjustUnread [exOld] 0 (exPage exOld) = (0, exPage exOld)"
    using t en af by simp
  moreover have "cycleCalls (exPageEnv (Some 9)) [exOld, exB] getCommentFromCache
     (saveComment exGetTime2 exClock) adjustUnread \<lparr>isCrawling = False, world = exOldPage\<rparr> =
     [EvEnabled, EvSleep 3000, EvEnabled,
      EvEnabled, EvFetch ''5123456'' ''1'' ''322'',
      EvSave (exB\<lparr>resCount := Num 9, unreadCount := Num 6,
                updatedAt := Some ''2024-01-01T00:00:05.000Z''\<rparr>) True,
      EvAdjust (Some 4), EvSleep 3000, EvEnabled]"
    by code_simp
  ultimately show ?thesis using t h1 h2 h3 h4 en by simp
qed


subsection \<open>The guard against overlapping cycles\<close>

lemma onWorld_apply:
  "onWorld f \<lparr>isCrawling = b, world = w\<rparr> = (fst (f w), \<lparr>isCrawling = b, world = snd (f w)\<rparr>)"
  by (simp add: onWorld_def split: prod.splits)

text \<open>
  While \<open>isCrawling\<close> is set, an invocation that does nothing when the variable is set
  leaves an awaited call of the page as it is.
\<close>

lemma during_apply:
  assumes noop: "\<And>c. isCrawling c \<Longrightarrow> snd (other c) = c"
  shows "during other (onWorld f) \<lparr>isCrawling = True, world = w\<rparr> =
     (fst (f w), \<lparr>isCrawling = True, world = snd (f w)\<rparr>)"
  by (simp add: during_def noop onWorld_apply)

lemma enabledNow_during:
  assumes noop: "\<And>c. isCrawling c \<Longrightarrow> snd (other c) = c"
  shows "enabledNow (duringEnv other (liftEnv env)) \<lparr>isCrawling = True, world = w\<rparr> =
     (fst (enabledNow env w), \<lparr>isCrawling = True, world = snd (enabledNow env w)\<rparr>)"
  by (simp add: enabledNow_def duringEnv_def liftEnv_def during_apply [OF noop]
        split: prod.splits sum.splits option.splits)

lemma sleep_during:
  assumes noop: "\<And>c. isCrawling c \<Longrightarrow> snd (other c) = c"
  shows "sleep (duringEnv other (liftEnv env)) ms \<lparr>isCrawling = True, world = w\<rparr> =
     \<lparr>isCrawling = True, world = sleep env ms w\<rparr>"
  by (simp add: duringEnv_def liftEnv_def noop)

lemma afterEntry_during:
  assumes noop: "\<And>c. isCrawling c \<Longrightarrow> snd (other c) = c"
  shows "afterEntry (duringEnv other (liftEnv env)) \<lparr>isCrawling = True, world = w\<rparr> =
     (fst (afterEntry env w), \<lparr>isCrawling = True, world = snd (afterEntry env w)\<rparr>)"
  by (simp add: afterEntry_def sleep_during [OF noop] enabledNow_during [OF noop])

lemma fetch_during:
  assumes noop: "\<And>c. isCrawling c \<Longrightarrow> snd (other c) = c"
  shows "fetchResCountForComment (duringEnv other (liftEnv env)) t cn
       \<lparr>isCrawling = True, world = w\<rparr> =
     (fst (fetchResCountForComment env t cn w),
      \<lparr>isCrawling = True, world = snd (fetchResCountForComment env t cn w)\<rparr>)"
proof -
  have h: "httpResCount (duringEnv other (liftEnv env)) t p cn \<lparr>isCrawling = True, world = w\<rparr> =
      (fst (httpResCount env t p cn w),
       \<lparr>isCrawling = True, world = snd (httpResCount env t p cn w)\<rparr>)" for p
    by (simp add: duringEnv_def liftEnv_def during_apply [OF noop])
  show ?thesis
    by (simp add: fetchResCountForComment_def h split: pageNumber.splits)
qed

lemma tooOld_during:
  "tooOld (duringEnv other (liftEnv env)) p \<lparr>isCrawling = True, world = w\<rparr> = tooOld env p w"
  by (simp add: tooOld_def duringEnv_def liftEnv_def split: option.splits)

lemma toISOString_during:
  "Date_toISOString (duringEnv other (liftEnv env)) \<lparr>isCrawling = b, world = w\<rparr> =
     Date_toISOString env w"
  by (simp add: duringEnv_def liftEnv_def)

lemma reconcile_during:
  assumes noop: "\<And>c. isCrawling c \<Longrightarrow> snd (other c) = c"
  shows "reconcileEntry (duringEnv other (liftEnv env)) (liftGet g)
       (\<lambda>e. during other (liftCall sv e)) (\<lambda>d. during other (liftCall adj d)) comment
       \<lparr>isCrawling = True, world = w\<rparr> =
     (fst (reconcileEntry env g sv adj comment w),
      \<lparr>isCrawling = True, world = snd (reconcileEntry env g sv adj comment w)\<rparr>)"
  unfolding reconcileEntry_def
  by (auto simp add: Let_def liftGet_def liftCall_def tooOld_during toISOString_during
        fetch_during [OF noop] during_apply [OF noop]
        split: prod.splits option.splits sum.splits)

lemma loop_during:
  assumes noop: "\<And>c. isCrawling c \<Longrightarrow> snd (other c) = c"
  shows "crawlLoop (duringEnv other (liftEnv env)) (liftGet g)
       (\<lambda>e. during other (liftCall sv e)) (\<lambda>d. during other (liftCall adj d)) l n
       \<lparr>isCrawling = True, world = w\<rparr> =
     (fst (crawlLoop env g sv adj l n w),
      \<lparr>isCrawling = True, world = snd (crawlLoop env g sv adj l n w)\<rparr>)"
proof (induction l arbitrary: n w)
  case Nil
  show ?case by simp
next
  case (Cons comment rest)
  show ?case
    by (auto simp add: enabledNow_during [OF noop] reconcile_during [OF noop]
          afterEntry_during [OF noop] Cons.IH split: prod.splits bool.splits)
qed

lemma during_nothing: "during (\<lambda>c. (0, c)) f = f"
  by (simp add: during_def fun_eq_iff split: prod.splits)

lemma duringEnv_nothing: "duringEnv (\<lambda>c. (0, c)) env = env"
  by (cases env) (simp add: duringEnv_def during_nothing)

lemma loop_lifted:
  "crawlLoop (liftEnv env) (liftGet g) (liftCall sv) (liftCall adj) l n
       \<lparr>isCrawling = True, world = w\<rparr> =
     (fst (crawlLoop env g sv adj l n w),
      \<lparr>isCrawling = True, world = snd (crawlLoop env g sv adj l n w)\<rparr>)"
  using loop_during [where other = "\<lambda>c. (0, c)" and env = env and g = g and sv = sv
      and adj = adj and l = l and n = n and w = w]
  by (simp add: during_nothing duringEnv_nothing)

lemma cycle_lifted:
  "crawlPage env l g sv adj \<lparr>isCrawling = False, world = w\<rparr> =
     (if l = [] then (0, \<lparr>isCrawling = False, world = w\<rparr>)
      else (fst (crawlLoop env g sv adj l 0 w),
            \<lparr>isCrawling = False, world = snd (crawlLoop env g sv adj l 0 w)\<rparr>))"
  by (simp add: crawlPage_def crawlCommentsOnce_def loop_lifted)

lemma cycle_during:
  assumes noop: "\<And>c. isCrawling c \<Longrightarrow> snd (other c) = c"
  shows "crawlWhileInvoked other env l g sv adj \<lparr>isCrawling = False, world = w\<rparr> =
     (if l = [] then (0, \<lparr>isCrawling = False, world = w\<rparr>)
      else (fst (crawlLoop env g sv adj l 0 w),
            \<lparr>isCrawling = False, world = snd (crawlLoop env g sv adj l 0 w)\<rparr>))"
  by (simp add: crawlWhileInvoked_def crawlCommentsOnce_def loop_during [OF noop])

text \<open>
  C5. An invocation of \<open>crawlCommentsOnce\<close> that finds \<open>isCrawling\<close> set returns 0
  and leaves the state as it was, whatever callables it was given; it makes no call at
  all (no flag read, fetch, save, adjustment or sleep). An invocation that finds the
  variable clear ends with the variable clear, also when the awaited calls reject. Such
  an invocation over a non-empty list runs the loop over the entries on the state of the
  page. No two cycles overlap: when another invocation of \<open>crawlCommentsOnce\<close> (with
  any list and callables) arrives during every awaited call of a cycle, the cycle gives
  the same result and the same final state as without these invocations.
\<close>

theorem crawl_guard:
  fixes c :: "'s crawler" and env :: "'s env" and env2 :: "'s crawler env"
  shows
  "(isCrawling c \<longrightarrow> crawlCommentsOnce env2 l2 g2 sv2 adj2 c = (0, c)) \<and>
   (isCrawling c \<longrightarrow> cycleCalls env l g sv adj c = []) \<and>
   (\<not> isCrawling c \<longrightarrow> \<not> isCrawling (snd (crawlCommentsOnce env2 l2 g2 sv2 adj2 c))) \<and>
   (\<not> isCrawling c \<and> l \<noteq> [] \<longrightarrow>
      crawlPage env l g sv adj c =
        (fst (crawlLoop env g sv adj l 0 (world c)),
         c\<lparr>world := snd (crawlLoop env g sv adj l 0 (world c))\<rparr>)) \<and>
   crawlWhileInvoked (crawlCommentsOnce env2 l2 g2 sv2 adj2) env l g sv adj c =
     crawlPage env l g sv adj c"
proof -
  obtain b w where c: "c = \<lparr>isCrawling = b, world = w\<rparr>" by (cases c) simp
  have noop: "snd (crawlCommentsOnce env2 l2 g2 sv2 adj2 c') = c'" if "isCrawling c'" for c'
    using that by (simp add: crawlCommentsOnce_def)
  have a: "isCrawling c \<longrightarrow> crawlCommentsOnce env2 l2 g2 sv2 adj2 c = (0, c)"
    by (simp add: crawlCommentsOnce_def)
  have b: "isCrawling c \<longrightarrow> cycleCalls env l g sv adj c = []"
    by (simp add: cycleCalls_def crawlCommentsOnce_def)
  have d: "\<not> isCrawling c \<longrightarrow> \<not> isCrawling (snd (crawlCommentsOnce env2 l2 g2 sv2 adj2 c))"
    by (simp add: crawlCommentsOnce_def Let_def split: prod.splits)
  have e: "\<not> isCrawling c \<and> l \<noteq> [] \<longrightarrow>
      crawlPage env l g sv adj c =
        (fst (crawlLoop env g sv adj l 0 (world c)),
         c\<lparr>world := snd (crawlLoop env g sv adj l 0 (world c))\<rparr>)"
    unfolding c by (simp add: cycle_lifted)
  have f: "crawlWhileInvoked (crawlCommentsOnce env2 l2 g2 sv2 adj2) env l g sv adj c =
      crawlPage env l g sv adj c"
  proof (cases b)
    case True
    then show ?thesis
      unfolding c by (simp add: crawlWhileInvoked_def crawlPage_def crawlCommentsOnce_def)
  next
    case False
    then show ?thesis
      unfolding c by (simp add: cycle_during [OF noop] cycle_lifted)
  qed
  from a b d e f show ?thesis by blast
qed

text \<open>
  An instance. On a page that tracks one entry with counts (5, 5), a second invocation
  alone would fetch 9 and count one update. Arriving during the awaited calls of a cycle
  that fetches 7, it changes nothing: the cycle counts its one update, the entry is
  stored with reply count 7, and the total is 7.
\<close>

theorem crawl_guard_witness:
  "isCrawling exRunning \<and>
   exSecond exRunning = (0, exRunning) \<and>
   cycleCalls (exPageEnv (Some 7)) [exFive] getCommentFromCache
     (saveComment exGetTime2 exClock) adjustUnread exRunning = [] \<and>
   \<not> isCrawling exIdle \<and>
   fst (exSecond exIdle) = 1 \<and>
   \<not> isCrawling (snd (exSecond exIdle)) \<and>
   map resCount (getAllCommentsFromCache (world (snd (exSecond exIdle)))) = [Num 9] \<and>
   fst (crawlWhileInvoked exSecond (exPageEnv (Some 7)) [exFive] getCommentFromCache
     (saveComment exGetTime2 exClock) adjustUnread exIdle) = 1 \<and>
   map resCount (getAllCommentsFromCache (world (snd
     (crawlWhileInvoked exSecond (exPageEnv (Some 7)) [exFive] getCommentFromCache
       (saveComment exGetTime2 exClock) adjustUnread exIdle)))) = [Num 7] \<and>
   unreadTotal (world (snd
     (crawlWhileInvoked exSecond (exPageEnv (Some 7)) [exFive] getCommentFromCache
       (saveComment exGetTime2 exClock) adjustUnread exIdle))) = Some 7"
proof -
  have r: "isCrawling exRunning" by (simp add: exRunning_def)
  have i: "\<not> isCrawling exIdle" by (simp add: exIdle_def)
  note t1 = crawl_guard [where c = exRunning and env = "exPageEnv (Some 7)" and l = "[exFive]"
      and g = getCommentFromCache and sv = "saveComment exGetTime2 exClock"
      and adj = adjustUnread and ?env2.0 = "liftEnv (exPageEnv (Some 9))" and ?l2.0 = "[exFive]"
      and ?g2.0 = "liftGet getCommentFromCache"
      and ?sv2.0 = "liftCall (saveComment exGetTime2 exClock)"
      and ?adj2.0 = "liftCall adjustUnread", folded exSecond_def]
  note t2 = crawl_guard [where c = exIdle and env = "exPageEnv (Some 7)" and l = "[exFive]"
      and g = getCommentFromCache and sv = "saveComment exGetTime2 exClock"
      and adj = adjustUnread and ?env2.0 = "liftEnv (exPageEnv (Some 9))" and ?l2.0 = "[exFive]"
      and ?g2.0 = "liftGet getCommentFromCache"
      and ?sv2.0 = "liftCall (saveComment exGetTime2 exClock)"
      and ?adj2.0 = "liftCall adjustUnread", folded exSecond_def]
  have s1: "fst (exSecond exIdle) = 1" by code_simp
  have s2: "map resCount (getAllCommentsFromCache (world (snd (exSecond exIdle)))) = [Num 9]"
    by code_simp
  have p1: "fst (crawlPage (exPageEnv (Some 7)) [exFive] getCommentFromCache
     (saveComment exGetTime2 exClock) adjustUnread exIdle) = 1" by code_simp
  have p2: "map resCount (getAllCommentsFromCache (world (snd
     (crawlPage (exPageEnv (Some 7)) [exFive] getCommentFromCache
       (saveComment exGetTime2 exClock) adjustUnread exIdle)))) = [Num 7]" by code_simp
  have p3: "unreadTotal (world (snd
     (crawlPage (exPageEnv (Some 7)) [exFive] getCommentFromCache
       (saveComment exGetTime2 exClock) adjustUnread exIdle))) = Some 7" by code_simp
  from t1 r have a: "exSecond exRunning = (0, exRunning)" by blast
  from t1 r have b: "cycleCalls (exPageEnv (Some 7)) [exFive] getCommentFromCache
     (saveComment exGetTime2 exClock) adjustUnread exRunning = []" by blast
  from t2 i have d: "\<not> isCrawling (snd (exSecond exIdle))" by blast
  from t2 have e: "crawlWhileInvoked exSecond (exPageEnv (Some 7)) [exFive] getCommentFromCache
     (saveComment exGetTime2 exClock) adjustUnread exIdle =
     crawlPage (exPageEnv (Some 7)) [exFive] getCommentFromCache
     (saveComment exGetTime2 exClock) adjustUnread exIdle" by blast
  from r a b i s1 d s2 p1 p2 p3 show ?thesis unfolding e by blast
qed

section \<open>The capacity limit\<close>












lemma nextFault_cache: "nextFault w = (f, w') \<Longrightarrow> commentCache w' = commentCache w"
  by (auto simp: nextFault_def split: list.splits)

lemma getItem_cache: "storage_getItem k w = (r, w') \<Longrightarrow> commentCache w' = commentCache w"
  by (auto simp: storage_getItem_def split: prod.splits bool.splits dest: nextFault_cache)

lemma setItem_cache: "storage_setItem k v w = (r, w') \<Longrightarrow> commentCache w' = commentCache w"
  by (auto simp: storage_setItem_def split: prod.splits bool.splits dest: nextFault_cache)


lemma saveAttempts_cache:
  "saveAttempts getTime clock entry m a w = (b, w') \<Longrightarrow> commentCache w' = commentCache w"
proof (induction getTime clock entry m a w rule: saveAttempts.induct)
  case (1 getTime clock entry m a w)
  let ?k = "getStorageKey (topicId entry) (commentNumber entry)"
  show ?case
  proof (cases "a < m")
    case False
    with "1.prems" show ?thesis by (simp add: saveAttempts.simps)
  next
    case True
    obtain r w1 where g: "storage_getItem ?k w = (r, w1)" by (cases "storage_getItem ?k w")
    note gc = getItem_cache [OF g]
    show ?thesis
    proof (cases r)
      case (Inl x)
      with True g "1.prems" have "saveAttempts getTime clock entry m (a + 1) w1 = (b, w')"
        by (simp add: saveAttempts.simps [of _ _ _ _ a])
      with "1.IH"(1) [OF True g [symmetric] Inl] gc show ?thesis by simp
    next
      case (Inr cur)
      show ?thesis
      proof (cases "existingIsNewer getTime cur entry")
        case True
        with \<open>a < m\<close> g Inr "1.prems" gc show ?thesis
          by (simp add: saveAttempts.simps [of _ _ _ _ a])
      next
        case nn: False
        let ?v = "entry\<lparr>version := Some (currentVersion cur + 1), updatedAt := Some (clock a)\<rparr>"
        obtain r2 w2 where st: "storage_setItem ?k ?v w1 = (r2, w2)"
          by (cases "storage_setItem ?k ?v w1")
        note sc = setItem_cache [OF st]
        show ?thesis
        proof (cases r2)
          case (Inl y)
          with True g Inr nn st "1.prems"
          have "saveAttempts getTime clock entry m (a + 1) w2 = (b, w')"
            by (simp add: saveAttempts.simps [of _ _ _ _ a])
          with "1.IH"(2) [OF True g [symmetric] Inr nn st [symmetric] Inl] gc sc
          show ?thesis by simp
        next
          case (Inr u)
          with True g \<open>r = Inr cur\<close> nn st "1.prems" have "w' = w2"
            by (simp add: saveAttempts.simps [of _ _ _ _ a])
          with sc gc show ?thesis by simp
        qed
      qed
    qed
  qed
qed









lemma saveCommentMax_alt:
  "saveCommentMax getTime clock maxEntries entry w =
     (case saveAttempts getTime clock entry OPTIMISTIC_LOCK_MAX_RETRIES 0 w of
        (False, w1) \<Rightarrow> (Inr None, w1)
      | (True, w1) \<Rightarrow>
          (case storage_getItem (getStorageKey (topicId entry) (commentNumber entry)) w1 of
             (Inl e, w2) \<Rightarrow> (Inl e, w2)
           | (Inr updatedEntry, w2) \<Rightarrow>
               (case enforceMaxEntries getTime maxEntries
                       (case updatedEntry of
                          None \<Rightarrow> w2
                        | Some u \<Rightarrow>
                            w2\<lparr>commentCache :=
                                 cacheSet (getCommentKey (topicId entry) (commentNumber entry)) u
                                   (commentCache w2)\<rparr>) of
                  (Inl e, w3) \<Rightarrow> (Inl e, w3)
                | (Inr d, w3) \<Rightarrow> (Inr updatedEntry, w3))))"
proof -
  have key: "''local:comment:'' @ topicId entry @ '':'' @ commentNumber entry =
      getStorageKey (topicId entry) (commentNumber entry)"
    by (simp add: getStorageKey_def)
  show ?thesis
    unfolding saveCommentMax_def saveCommentWithOptimisticLock_def key by (rule refl)
qed







section \<open>Reconciliation and the unread total\<close>

lemma nextFault_total: "nextFault w = (f, w') \<Longrightarrow> unreadTotal w' = unreadTotal w"
  by (auto simp: nextFault_def split: list.splits)

lemma getItem_total: "storage_getItem k w = (r, w') \<Longrightarrow> unreadTotal w' = unreadTotal w"
  by (auto simp: storage_getItem_def split: prod.splits bool.splits dest: nextFault_total)

lemma setItem_total: "storage_setItem k v w = (r, w') \<Longrightarrow> unreadTotal w' = unreadTotal w"
  by (auto simp: storage_setItem_def split: prod.splits bool.splits dest: nextFault_total)

lemma saveAttempts_total:
  "saveAttempts getTime clock entry m a w = (b, w') \<Longrightarrow> unreadTotal w' = unreadTotal w"
proof (induction getTime clock entry m a w rule: saveAttempts.induct)
  case (1 getTime clock entry m a w)
  let ?k = "getStorageKey (topicId entry) (commentNumber entry)"
  show ?case
  proof (cases "a < m")
    case False
    with "1.prems" show ?thesis by (simp add: saveAttempts.simps)
  next
    case True
    obtain r w1 where g: "storage_getItem ?k w = (r, w1)" by (cases "storage_getItem ?k w")
    note gc = getItem_total [OF g]
    show ?thesis
    proof (cases r)
      case (Inl x)
      with True g "1.prems" have "saveAttempts getTime clock entry m (a + 1) w1 = (b, w')"
        by (simp add: saveAttempts.simps [of _ _ _ _ a])
      with "1.IH"(1) [OF True g [symmetric] Inl] gc show ?thesis by simp
    next
      case (Inr cur)
      show ?thesis
      proof (cases "existingIsNewer getTime cur entry")
        case True
        with \<open>a < m\<close> g Inr "1.prems" gc show ?thesis
          by (simp add: saveAttempts.simps [of _ _ _ _ a])
      next
        case nn: False
        let ?v = "entry\<lparr>version := Some (currentVersion cur + 1), updatedAt := Some (clock a)\<rparr>"
        obtain r2 w2 where st: "storage_setItem ?k ?v w1 = (r2, w2)"
          by (cases "storage_setItem ?k ?v w1")
        note sc = setItem_total [OF st]
        show ?thesis
        proof (cases r2)
          case (Inl y)
          with True g Inr nn st "1.prems"
          have "saveAttempts getTime clock entry m (a + 1) w2 = (b, w')"
            by (simp add: saveAttempts.simps [of _ _ _ _ a])
          with "1.IH"(2) [OF True g [symmetric] Inr nn st [symmetric] Inl] gc sc
          show ?thesis by simp
        next
          case (Inr u)
          with True g \<open>r = Inr cur\<close> nn st "1.prems" have "w' = w2"
            by (simp add: saveAttempts.simps [of _ _ _ _ a])
          with sc gc show ?thesis by simp
        qed
      qed
    qed
  qed
qed

text \<open>
  \<open>saveComment\<close> returns \<open>null\<close> only when the lock returned \<open>false\<close>, and then
  nothing was written: the stored records, the cache and the unread total are as before.
\<close>

lemma saveCommentMax_null:
  assumes "saveCommentMax getTime clock maxEntries entry w = (Inr None, w')"
  shows "items w' = items w \<and> commentCache w' = commentCache w \<and>
         unreadTotal w' = unreadTotal w"
proof -
  let ?k = "getStorageKey (topicId entry) (commentNumber entry)"
  obtain b w1 where s1: "saveAttempts getTime clock entry OPTIMISTIC_LOCK_MAX_RETRIES 0 w = (b, w1)"
    by (cases "saveAttempts getTime clock entry OPTIMISTIC_LOCK_MAX_RETRIES 0 w")
  show ?thesis
  proof (cases b)
    case False
    with assms s1 have "w' = w1" by (simp add: saveCommentMax_alt)
    with saveAttempts_cases [OF s1] False saveAttempts_cache [OF s1] saveAttempts_total [OF s1]
    show ?thesis by simp
  next
    case True
    obtain r w2 where g: "storage_getItem ?k w1 = (r, w2)" by (cases "storage_getItem ?k w1")
    from saveAttempts_cases [OF s1] True obtain v where "items w1 ?k = Some v" by auto
    with getItem_cases [OF g] have "r = Inl StorageError \<or> r = Inr (Some v)" by auto
    with assms s1 True g have False
      by (auto simp: saveCommentMax_alt split: prod.splits sum.splits)
    then show ?thesis ..
  qed
qed

text \<open>The result of a reconciliation, by the outcome of its save.\<close>

lemma reconcile_char:
  "reconcileEntry env g sv adj c s =
     (let previous = (case g (topicId c) (commentNumber c) s of None \<Rightarrow> c | Some p \<Rightarrow> p)
      in if tooOld env previous s then (0, s)
         else
           (case fetchResCountForComment env (topicId c) (commentNumber c) s of
              (None, s1) \<Rightarrow> (0, s1)
            | (Some r, s1) \<Rightarrow>
                (let unread = computeUnread (resCount previous) (unreadCount previous) r;
                     delta = jsMinus unread (unreadCount previous);
                     upd = previous\<lparr>resCount := Num r, unreadCount := Num unread,
                             updatedAt := Some (Date_toISOString env s1)\<rparr>
                 in if delta \<noteq> Some 0 \<or> Num r \<noteq> resCount previous then
                      (if savedOk (fst (sv upd s1)) then
                         (if delta \<noteq> Some 0 then
                            (case adj delta (snd (sv upd s1)) of
                               (Inl e, s3) \<Rightarrow> (0, s3)
                             | (Inr u, s3) \<Rightarrow> (1, s3))
                          else (1, snd (sv upd s1)))
                       else (0, snd (sv upd s1)))
                    else (0, s1))))"
  unfolding reconcileEntry_def
  by (auto simp add: Let_def savedOk_def split: prod.splits option.splits sum.splits)

lemma adjust_discipline:
  assumes prev: "previous = (case g (topicId c) (commentNumber c) s of None \<Rightarrow> c | Some q \<Rightarrow> q)"
  shows "(\<forall>d. EvAdjust d \<in> set (entryCalls env g sv adj c s) \<longrightarrow>
            d \<noteq> Some 0 \<and>
            (\<exists>e n. EvSave e True \<in> set (entryCalls env g sv adj c s) \<and>
               unreadCount e = Num n \<and> d = jsMinus n (unreadCount previous))) \<and>
         ((\<exists>e. EvSave e False \<in> set (entryCalls env g sv adj c s)) \<longrightarrow>
            (\<forall>d. EvAdjust d \<notin> set (entryCalls env g sv adj c s))) \<and>
         (\<forall>e n. EvSave e True \<in> set (entryCalls env g sv adj c s) \<and> unreadCount e = Num n \<and>
              jsMinus n (unreadCount previous) \<noteq> Some 0 \<longrightarrow>
            EvAdjust (jsMinus n (unreadCount previous)) \<in> set (entryCalls env g sv adj c s)) \<and>
         (\<forall>e ok. EvSave e ok \<in> set (entryCalls env g sv adj c s) \<longrightarrow>
            ok = savedOk (fst (sv e
                   (snd (fetchResCountForComment env (topicId c) (commentNumber c) s))))) \<and>
         length (filter isAdjust (entryCalls env g sv adj c s)) \<le> 1 \<and>
         length (filter isSave (entryCalls env g sv adj c s)) \<le> 1"
proof -
  obtain r s1 where f: "fetchResCountForComment env (topicId c) (commentNumber c) s = (r, s1)"
    by (cases "fetchResCountForComment env (topicId c) (commentNumber c) s")
  have fc1: "EvSave e ok \<notin> set (fetchCalls t cn)" "EvAdjust d \<notin> set (fetchCalls t cn)"
    "filter isAdjust (fetchCalls t cn) = []" "filter isSave (fetchCalls t cn) = []"
    for e ok d t cn
    by (simp_all add: fetchCalls_def isAdjust_def isSave_def split: pageNumber.splits)
  show ?thesis
  proof (cases "tooOld env previous s")
    case True
    then have "entryCalls env g sv adj c s = []"
      by (simp add: entryCalls_char prev [symmetric])
    then show ?thesis by simp
  next
    case young: False
    show ?thesis
    proof (cases r)
      case None
      with young f have "entryCalls env g sv adj c s = fetchCalls (topicId c) (commentNumber c)"
        by (simp add: entryCalls_char prev [symmetric])
      then show ?thesis by (simp add: fc1)
    next
      case (Some rv)
      let ?n = "computeUnread (resCount previous) (unreadCount previous) rv"
      let ?d = "jsMinus ?n (unreadCount previous)"
      let ?u = "previous\<lparr>resCount := Num rv, unreadCount := Num ?n,
                   updatedAt := Some (Date_toISOString env s1)\<rparr>"
      have calls: "entryCalls env g sv adj c s =
          fetchCalls (topicId c) (commentNumber c) @
          (if ?d \<noteq> Some 0 \<or> Num rv \<noteq> resCount previous then
             EvSave ?u (savedOk (fst (sv ?u s1))) #
             (if savedOk (fst (sv ?u s1)) \<and> ?d \<noteq> Some 0 then [EvAdjust ?d] else [])
           else [])"
        using young f Some by (simp add: entryCalls_char prev [symmetric] Let_def)
      show ?thesis
        unfolding calls f
        by (auto simp: fc1 isAdjust_def isSave_def)
    qed
  qed
qed

text \<open>After a save that failed the reconciliation ends: it counts no update and its
  final state is the one the save left.\<close>

lemma failed_save_ends:
  assumes prev: "previous = (case g (topicId c) (commentNumber c) s of None \<Rightarrow> c | Some q \<Rightarrow> q)"
    and failed: "EvSave e False \<in> set (entryCalls env g sv adj c s)"
  shows "reconcileEntry env g sv adj c s =
     (0, snd (sv e (snd (fetchResCountForComment env (topicId c) (commentNumber c) s))))"
proof -
  obtain r s1 where f: "fetchResCountForComment env (topicId c) (commentNumber c) s = (r, s1)"
    by (cases "fetchResCountForComment env (topicId c) (commentNumber c) s")
  have fc1: "EvSave e ok \<notin> set (fetchCalls t cn)" for e ok t cn
    by (simp add: fetchCalls_def split: pageNumber.splits)
  show ?thesis
  proof (cases "tooOld env previous s")
    case True
    then have "entryCalls env g sv adj c s = []"
      by (simp add: entryCalls_char prev [symmetric])
    with failed show ?thesis by simp
  next
    case young: False
    show ?thesis
    proof (cases r)
      case None
      with young f have "entryCalls env g sv adj c s = fetchCalls (topicId c) (commentNumber c)"
        by (simp add: entryCalls_char prev [symmetric])
      with failed fc1 show ?thesis by simp
    next
      case (Some rv)
      let ?n = "computeUnread (resCount previous) (unreadCount previous) rv"
      let ?d = "jsMinus ?n (unreadCount previous)"
      let ?u = "previous\<lparr>resCount := Num rv, unreadCount := Num ?n,
                   updatedAt := Some (Date_toISOString env s1)\<rparr>"
      have calls: "entryCalls env g sv adj c s =
          fetchCalls (topicId c) (commentNumber c) @
          (if ?d \<noteq> Some 0 \<or> Num rv \<noteq> resCount previous then
             EvSave ?u (savedOk (fst (sv ?u s1))) #
             (if savedOk (fst (sv ?u s1)) \<and> ?d \<noteq> Some 0 then [EvAdjust ?d] else [])
           else [])"
        using young f Some by (simp add: entryCalls_char prev [symmetric] Let_def)
      from failed have cond: "?d \<noteq> Some 0 \<or> Num rv \<noteq> resCount previous"
        and e: "e = ?u" and no: "\<not> savedOk (fst (sv ?u s1))"
        unfolding calls by (auto simp: fc1 split: if_splits)
      have "reconcileEntry env g sv adj c s = (0, snd (sv ?u s1))"
        using young f Some cond no by (simp add: reconcile_char prev [symmetric] Let_def)
      then show ?thesis by (simp add: e f)
    qed
  qed
qed

text \<open>
  C3, as amended. In the reconciliation of one entry, \<open>adjustUnread\<close> is called only
  after a \<open>saveComment\<close> that returned the saved entry, only with a delta other than 0,
  and with the signed delta new unread minus previous unread; it is then called exactly
  once. When \<open>saveComment\<close> returns \<open>null\<close> or rejects, \<open>adjustUnread\<close> is not
  called at all, the reconciliation counts no update, and its final state is the one that
  \<open>saveComment\<close> left. The recorded outcome of a save is the outcome of the given
  \<open>saveComment\<close> on the state after the fetch. A \<open>saveComment\<close> of the page that
  returns \<open>null\<close> (the lock rejected the entry as stale or used up its retries) has
  written nothing: the stored records, the cache and the unread total are as before it.
\<close>

theorem adjust_only_after_persist:
  assumes prev: "previous = (case g (topicId c) (commentNumber c) s of None \<Rightarrow> c | Some q \<Rightarrow> q)"
  shows "(\<forall>d. EvAdjust d \<in> set (entryCalls env g sv adj c s) \<longrightarrow>
            d \<noteq> Some 0 \<and>
            (\<exists>e n. EvSave e True \<in> set (entryCalls env g sv adj c s) \<and>
               unreadCount e = Num n \<and> d = jsMinus n (unreadCount previous))) \<and>
         ((\<exists>e. EvSave e False \<in> set (entryCalls env g sv adj c s)) \<longrightarrow>
            (\<forall>d. EvAdjust d \<notin> set (entryCalls env g sv adj c s))) \<and>
         (\<forall>e n. EvSave e True \<in> set (entryCalls env g sv adj c s) \<and> unreadCount e = Num n \<and>
              jsMinus n (unreadCount previous) \<noteq> Some 0 \<longrightarrow>
            EvAdjust (jsMinus n (unreadCount previous)) \<in> set (entryCalls env g sv adj c s)) \<and>
         (\<forall>e ok. EvSave e ok \<in> set (entryCalls env g sv adj c s) \<longrightarrow>
            ok = savedOk (fst (sv e
                   (snd (fetchResCountForComment env (topicId c) (commentNumber c) s))))) \<and>
         length (filter isAdjust (entryCalls env g sv adj c s)) \<le> 1 \<and>
         length (filter isSave (entryCalls env g sv adj c s)) \<le> 1 \<and>
         (\<forall>e. EvSave e False \<in> set (entryCalls env g sv adj c s) \<longrightarrow>
            reconcileEntry env g sv adj c s =
              (0, snd (sv e (snd (fetchResCountForComment env (topicId c) (commentNumber c) s))))) \<and>
         (\<forall>w'. saveComment getTime clock entry w = (Inr None, w') \<longrightarrow>
            items w' = items w \<and> commentCache w' = commentCache w \<and>
            unreadTotal w' = unreadTotal w)"
proof -
  note six = adjust_discipline [where sv = sv and adj = adj and env = env and g = g
      and c = c and s = s and previous = previous, OF prev]
  have seven: "\<forall>e. EvSave e False \<in> set (entryCalls env g sv adj c s) \<longrightarrow>
      reconcileEntry env g sv adj c s =
        (0, snd (sv e (snd (fetchResCountForComment env (topicId c) (commentNumber c) s))))"
  proof (intro allI impI)
    fix e
    assume "EvSave e False \<in> set (entryCalls env g sv adj c s)"
    with prev show "reconcileEntry env g sv adj c s =
        (0, snd (sv e (snd (fetchResCountForComment env (topicId c) (commentNumber c) s))))"
      by (rule failed_save_ends [where g = g and c = c and s = s and previous = previous
            and env = env and sv = sv and adj = adj and e = e])
  qed
  have eight: "\<forall>w'. saveComment getTime clock entry w = (Inr None, w') \<longrightarrow>
      items w' = items w \<and> commentCache w' = commentCache w \<and> unreadTotal w' = unreadTotal w"
    unfolding saveComment_def by (intro allI impI, erule saveCommentMax_null)
  from six show ?thesis
    by (elim conjE, intro conjI) (assumption | rule seven | rule eight)+
qed

text \<open>Two instances: on a page whose storage calls fail the save returns \<open>null\<close>, no
  adjustment is made and the total stays 5; on a working page the save succeeds and the
  total is adjusted by 2.\<close>

theorem adjust_only_after_persist_witness:
  "EvSave exSeven False \<in> set (entryCalls (exPageEnv (Some 7)) getCommentFromCache
      (saveComment exGetTime2 exClock) adjustUnread exFive exFaultyPage) \<and>
   EvAdjust (Some 2) \<notin> set (entryCalls (exPageEnv (Some 7)) getCommentFromCache
      (saveComment exGetTime2 exClock) adjustUnread exFive exFaultyPage) \<and>
   EvSave exSeven True \<in> set (entryCalls (exPageEnv (Some 7)) getCommentFromCache
      (saveComment exGetTime2 exClock) adjustUnread exFive (exPage exFive)) \<and>
   EvAdjust (Some 2) \<in> set (entryCalls (exPageEnv (Some 7)) getCommentFromCache
      (saveComment exGetTime2 exClock) adjustUnread exFive (exPage exFive)) \<and>
   fst (saveComment exGetTime2 exClock exSeven exFaultyPage) = Inr None \<and>
   fst (reconcileEntry (exPageEnv (Some 7)) getCommentFromCache
      (saveComment exGetTime2 exClock) adjustUnread exFive exFaultyPage) = 0 \<and>
   unreadTotal (snd (saveComment exGetTime2 exClock exSeven exFaultyPage)) = Some 5 \<and>
   commentCache (snd (saveComment exGetTime2 exClock exSeven exFaultyPage)) =
     [(''5123456:321'', exFive)]"
proof -
  have a: "EvSave exSeven False \<in> set (entryCalls (exPageEnv (Some 7)) getCommentFromCache
      (saveComment exGetTime2 exClock) adjustUnread exFive exFaultyPage)"
    by code_simp
  have b: "EvSave exSeven True \<in> set (entryCalls (exPageEnv (Some 7)) getCommentFromCache
      (saveComment exGetTime2 exClock) adjustUnread exFive (exPage exFive))"
    by code_simp
  have p1: "exFive = (case getCommentFromCache (topicId exFive) (commentNumber exFive)
      exFaultyPage of None \<Rightarrow> exFive | Some q \<Rightarrow> q)"
    by (simp add: getCommentFromCache_def exFaultyPage_def exPage_def exFive_def exEntry_def
          getCommentKey_def)
  have p2: "exFive = (case getCommentFromCache (topicId exFive) (commentNumber exFive)
      (exPage exFive) of None \<Rightarrow> exFive | Some q \<Rightarrow> q)"
    by (simp add: exFive_previous)
  have u: "unreadCount exSeven = Num 7" "jsMinus 7 (unreadCount exFive) = Some 2"
    by (simp_all add: exSeven_def exFive_def jsMinus_def)
  from adjust_only_after_persist [where g = getCommentFromCache and c = exFive
      and s = exFaultyPage and env = "exPageEnv (Some 7)"
      and sv = "saveComment exGetTime2 exClock" and adj = adjustUnread, OF p1] a
  have na: "EvAdjust (Some 2) \<notin> set (entryCalls (exPageEnv (Some 7)) getCommentFromCache
      (saveComment exGetTime2 exClock) adjustUnread exFive exFaultyPage)"
    by blast
  from adjust_only_after_persist [where g = getCommentFromCache and c = exFive
      and s = "exPage exFive" and env = "exPageEnv (Some 7)"
      and sv = "saveComment exGetTime2 exClock" and adj = adjustUnread, OF p2] b u
  have ad: "EvAdjust (Some 2) \<in> set (entryCalls (exPageEnv (Some 7)) getCommentFromCache
      (saveComment exGetTime2 exClock) adjustUnread exFive (exPage exFive))"
    by (metis option.inject zero_neq_numeral)
  have sn: "fst (saveComment exGetTime2 exClock exSeven exFaultyPage) = Inr None"
    by code_simp
  then have sp: "saveComment exGetTime2 exClock exSeven exFaultyPage =
      (Inr None, snd (saveComment exGetTime2 exClock exSeven exFaultyPage))"
    by (metis prod.collapse)
  have tot: "unreadTotal exFaultyPage = Some 5"
    and cache: "commentCache exFaultyPage = [(''5123456:321'', exFive)]"
    by (simp_all add: exFaultyPage_def exPage_def)
  from adjust_only_after_persist [where g = getCommentFromCache and c = exFive
      and s = exFaultyPage and env = "exPageEnv (Some 7)"
      and sv = "saveComment exGetTime2 exClock" and adj = adjustUnread
      and getTime = exGetTime2 and clock = exClock and entry = exSeven and w = exFaultyPage,
      OF p1] a sp tot cache
  have z: "fst (reconcileEntry (exPageEnv (Some 7)) getCommentFromCache
      (saveComment exGetTime2 exClock) adjustUnread exFive exFaultyPage) = 0"
    and keep: "unreadTotal (snd (saveComment exGetTime2 exClock exSeven exFaultyPage)) = Some 5"
      "commentCache (snd (saveComment exGetTime2 exClock exSeven exFaultyPage)) =
         [(''5123456:321'', exFive)]"
    by simp_all
  from a na b ad sn z keep show ?thesis by blast
qed

text \<open>
  The claim C3 as stated concludes that the accounted total never diverges from the
  persisted state. On a page that tracks one entry with counts (5, 5) and total 5, the
  remote count is 7; \<open>saveComment\<close> stores and caches the entry with unread count 7,
  then the read of the total inside \<open>adjustUnread\<close> throws. The rejection is caught,
  no update is counted, and the total is still 5 while the entries sum to 7.
\<close>

theorem adjust_failure_counterexample:
  "unreadSum exAdjustFails = 5 \<and> unreadTotal exAdjustFails = Some 5 \<and>
   entryCalls (exPageEnv (Some 7)) getCommentFromCache (saveComment exGetTime2 exClock)
     adjustUnread exFive exAdjustFails =
     [EvFetch ''5123456'' ''1'' ''321'', EvSave exSeven True, EvAdjust (Some 2)] \<and>
   fst exAfterReconcile = 0 \<and>
   persistedCounts (snd exAfterReconcile) exFive = Some (Num 7, Num 7) \<and>
   unreadSum (snd exAfterReconcile) = 7 \<and>
   unreadTotal (snd exAfterReconcile) = Some 5"
  by code_simp

end
